theory Spec2Isabelle
  imports Main "HOL-Library.Sublist"
begin

section \<open>JavaScript string operations used by the sources\<close>

text \<open>
  Strings are lists of characters. The sources only inspect ASCII separators, ASCII white
  space and ASCII letters; \<open>length\<close> is the number of list elements, as
  \<^verbatim>\<open>String.prototype.length\<close> is the number of code units.
\<close>

definition slash :: char where
  "slash = CHR ''/''"

definition backslash :: char where
  "backslash = CHR 0x5C"

text \<open>\<^verbatim>\<open>s.replace(/\\/g, '/')\<close>\<close>

definition replaceBackslashes :: "string \<Rightarrow> string" where
  "replaceBackslashes s = map (\<lambda>c. if c = backslash then slash else c) s"

text \<open>\<^verbatim>\<open>s.replace(/\/+/g, '/')\<close>: every maximal run of slashes becomes one slash.\<close>

fun collapseSlashes :: "string \<Rightarrow> string" where
  "collapseSlashes (c # d # cs) =
     (if c = slash \<and> d = slash then collapseSlashes (d # cs) else c # collapseSlashes (d # cs))"
| "collapseSlashes cs = cs"

text \<open>\<^verbatim>\<open>s.replace(/^\/+/, '')\<close> and \<^verbatim>\<open>s.replace(/^\/+|\/+$/g, '')\<close>\<close>

definition stripLeadingSlashes :: "string \<Rightarrow> string" where
  "stripLeadingSlashes s = dropWhile (\<lambda>c. c = slash) s"

definition stripSlashes :: "string \<Rightarrow> string" where
  "stripSlashes s = rev (dropWhile (\<lambda>c. c = slash) (rev (dropWhile (\<lambda>c. c = slash) s)))"

text \<open>\<^verbatim>\<open>s.split(sep)\<close> for a one-character separator: never the empty list.\<close>

fun split :: "char \<Rightarrow> string \<Rightarrow> string list" where
  "split sep [] = [[]]"
| "split sep (c # cs) =
     (if c = sep then [] # split sep cs
      else (case split sep cs of [] \<Rightarrow> [[c]] | p # ps \<Rightarrow> (c # p) # ps))"

text \<open>\<^verbatim>\<open>parts.join('/')\<close>\<close>

fun join :: "string list \<Rightarrow> string" where
  "join [] = []"
| "join [p] = p"
| "join (p # q # ps) = p @ slash # join (q # ps)"

text \<open>
  A character is a code unit below 256. \<^verbatim>\<open>s.trim()\<close> strips the white space and line
  terminator characters, of which the tab, the line feed, the vertical tab, the form feed,
  the carriage return, the space and the no-break space lie in that range.
\<close>

definition isSpace :: "char \<Rightarrow> bool" where
  "isSpace c =
     (c \<in> set [CHR '' '', CHR 0x09, CHR 0x0A, CHR 0x0B, CHR 0x0C, CHR 0x0D, CHR 0xA0])"

definition trim :: "string \<Rightarrow> string" where
  "trim s = rev (dropWhile isSpace (rev (dropWhile isSpace s)))"

text \<open>
  \<^verbatim>\<open>s.toLowerCase()\<close>: the letters \<^verbatim>\<open>A\<close> to \<^verbatim>\<open>Z\<close> and the capital letters of the
  range \<^verbatim>\<open>0xC0\<close> to \<^verbatim>\<open>0xDE\<close> (without the multiplication sign \<^verbatim>\<open>0xD7\<close>) have a
  lower-case form, 32 code units further on.
\<close>

definition upperLetters :: string where
  "upperLetters =
     ''ABCDEFGHIJKLMNOPQRSTUVWXYZ'' @
     [CHR 0xC0, CHR 0xC1, CHR 0xC2, CHR 0xC3, CHR 0xC4, CHR 0xC5, CHR 0xC6, CHR 0xC7,
      CHR 0xC8, CHR 0xC9, CHR 0xCA, CHR 0xCB, CHR 0xCC, CHR 0xCD, CHR 0xCE, CHR 0xCF,
      CHR 0xD0, CHR 0xD1, CHR 0xD2, CHR 0xD3, CHR 0xD4, CHR 0xD5, CHR 0xD6, CHR 0xD8,
      CHR 0xD9, CHR 0xDA, CHR 0xDB, CHR 0xDC, CHR 0xDD, CHR 0xDE]"

definition lowerLetters :: string where
  "lowerLetters =
     ''abcdefghijklmnopqrstuvwxyz'' @
     [CHR 0xE0, CHR 0xE1, CHR 0xE2, CHR 0xE3, CHR 0xE4, CHR 0xE5, CHR 0xE6, CHR 0xE7,
      CHR 0xE8, CHR 0xE9, CHR 0xEA, CHR 0xEB, CHR 0xEC, CHR 0xED, CHR 0xEE, CHR 0xEF,
      CHR 0xF0, CHR 0xF1, CHR 0xF2, CHR 0xF3, CHR 0xF4, CHR 0xF5, CHR 0xF6, CHR 0xF8,
      CHR 0xF9, CHR 0xFA, CHR 0xFB, CHR 0xFC, CHR 0xFD, CHR 0xFE]"

definition lowerChar :: "char \<Rightarrow> char" where
  "lowerChar c =
     (case map_of (zip upperLetters lowerLetters) c of
        None \<Rightarrow> c
      | Some d \<Rightarrow> d)"

definition toLowerCase :: "string \<Rightarrow> string" where
  "toLowerCase s = map lowerChar s"

text \<open>\<^verbatim>\<open>s.startsWith(p)\<close>, \<^verbatim>\<open>s.endsWith(p)\<close>, \<^verbatim>\<open>s.indexOf(p)\<close> (\<open>None\<close> is -1)
  and \<^verbatim>\<open>s.includes(p)\<close> (here \<open>includesStr\<close>).\<close>

definition startsWith :: "string \<Rightarrow> string \<Rightarrow> bool" where
  "startsWith s p = (take (length p) s = p)"

definition endsWith :: "string \<Rightarrow> string \<Rightarrow> bool" where
  "endsWith s p = (length p \<le> length s \<and> drop (length s - length p) s = p)"

fun indexOf :: "string \<Rightarrow> string \<Rightarrow> nat option" where
  "indexOf [] p = (if p = [] then Some 0 else None)"
| "indexOf (c # cs) p =
     (if startsWith (c # cs) p then Some 0 else map_option Suc (indexOf cs p))"

definition includesStr :: "string \<Rightarrow> string \<Rightarrow> bool" where
  "includesStr s p = (indexOf s p \<noteq> None)"

text \<open>\<^verbatim>\<open>v || d\<close> for a string \<open>v\<close> that may be absent: an absent or empty \<open>v\<close> is falsy.\<close>

definition truthy :: "string option \<Rightarrow> bool" where
  "truthy v = (case v of None \<Rightarrow> False | Some s \<Rightarrow> s \<noteq> [])"

definition orElse :: "string option \<Rightarrow> string \<Rightarrow> string" where
  "orElse v d = (case v of None \<Rightarrow> d | Some s \<Rightarrow> if s = [] then d else s)"

text \<open>Decimal rendering of a number inside a template literal.\<close>

function showNat :: "nat \<Rightarrow> string" where
  "showNat n =
     (if n < 10 then [''0123456789'' ! n]
      else showNat (n div 10) @ [''0123456789'' ! (n mod 10)])"
  by pat_completeness auto
termination
  by (relation "measure id") auto

declare showNat.simps [simp del]

section \<open>The file cabinet behind the RESTlet\<close>

text \<open>
  The RESTlet \<^verbatim>\<open>netsuite-restlet/autoUploadRESTlet.js\<close> runs inside the platform and
  reaches the file cabinet through the modules \<^verbatim>\<open>N/query\<close>, \<^verbatim>\<open>N/record\<close> and
  \<^verbatim>\<open>N/file\<close>. These modules are not part of the repository; the cabinet is a
  state that is passed through every call, and each platform operation is a function on it.
\<close>

datatype file_type =
    JAVASCRIPT | HTMLDOC | STYLESHEET | PLAINTEXT | XMLDOC | JSON | CSV | EXCEL | PDF | WORD
  | PNGIMAGE | JPGIMAGE | GIFIMAGE | SVGIMAGE | ICON | BMPIMAGE | ZIP | GZIP | TAR | MP3
  | MP4 | MOV | POWERPOINT | FREEMARKER

datatype file_encoding = UTF_8 | BASE_64

datatype name_conflict_resolution = OVERWRITE

record folder_row =
  folder_id :: int
  folder_name :: string
  folder_parent :: "int option"

record file_row =
  file_id :: int
  file_name :: string
  file_folder :: int
  file_contents :: string

text \<open>The options object handed to \<^verbatim>\<open>file.create\<close>.\<close>

record file_options =
  opt_name :: string
  opt_fileType :: file_type
  opt_folder :: int
  opt_contents :: string
  opt_description :: string
  opt_encoding :: file_encoding
  opt_conflictResolution :: "name_conflict_resolution option"

datatype platform_call =
    FolderPathQuery int "string list"
  | FileQuery string int
  | FoldersNamedQuery "string list"
  | FolderSave string int
  | FileSave file_options

datatype js_error = JsError (err_name: string) (err_message: string)

text \<open>
  \<open>faults\<close> is the schedule of platform failures: each platform call consumes its head,
  and the call throws when the head is \<open>True\<close>. The empty schedule means that no call
  fails any more. \<open>calls\<close> is the trace of the platform calls made so far.
\<close>

record netsuite =
  folders :: "folder_row list"
  files :: "file_row list"
  faults :: "bool list"
  calls :: "platform_call list"

definition platformError :: js_error where
  "platformError = JsError ''UNEXPECTED_ERROR'' ''An unexpected SuiteScript error has occurred''"

definition invoke :: "platform_call \<Rightarrow> netsuite \<Rightarrow> bool \<times> netsuite" where
  "invoke call ns =
     (case faults ns of
        [] \<Rightarrow> (False, ns\<lparr>calls := calls ns @ [call]\<rparr>)
      | b # bs \<Rightarrow> (b, ns\<lparr>faults := bs, calls := calls ns @ [call]\<rparr>))"

text \<open>
  Modelled from the spec: the platform's folder query of \<^verbatim>\<open>findFolderByPath\<close>, a chain
  of \<^verbatim>\<open>MediaItemFolder\<close> rows joined on \<^verbatim>\<open>parent\<close>: the first row lies under
  \<open>root\<close> and has the first name, each next row lies under the row before and has the
  next name. The result holds the id of the last row of every chain.
\<close>

fun folderChain :: "folder_row list \<Rightarrow> int list \<Rightarrow> string list \<Rightarrow> int list" where
  "folderChain fs cur [] = cur"
| "folderChain fs cur (p # ps) =
     folderChain fs
       (concat (map (\<lambda>c. map folder_id
          (filter (\<lambda>f. folder_parent f = Some c \<and> folder_name f = p) fs)) cur)) ps"

definition runFolderPathQuery ::
  "netsuite \<Rightarrow> int \<Rightarrow> string list \<Rightarrow> (js_error + int list) \<times> netsuite" where
  "runFolderPathQuery ns root parts =
     (case invoke (FolderPathQuery root parts) ns of
        (True, ns') \<Rightarrow> (Inl platformError, ns')
      | (False, ns') \<Rightarrow> (Inr (folderChain (folders ns') [root] parts), ns'))"

text \<open>
  Modelled from the spec: the platform's file query of \<^verbatim>\<open>findFileByFullPath\<close>,
  the \<^verbatim>\<open>File\<close> rows with the given name in the given folder.
\<close>

definition runFileQuery ::
  "netsuite \<Rightarrow> string \<Rightarrow> int \<Rightarrow> (js_error + file_row list) \<times> netsuite" where
  "runFileQuery ns fileName folderId =
     (case invoke (FileQuery fileName folderId) ns of
        (True, ns') \<Rightarrow> (Inl platformError, ns')
      | (False, ns') \<Rightarrow>
          (Inr (filter (\<lambda>f. file_name f = fileName \<and> file_folder f = folderId) (files ns')), ns'))"

text \<open>
  Modelled from the spec: the platform's query of \<^verbatim>\<open>findOrCreateFolderPath\<close>, the
  \<^verbatim>\<open>MediaItemFolder\<close> rows whose name is one of the given names.
\<close>

definition runFoldersNamedQuery ::
  "netsuite \<Rightarrow> string list \<Rightarrow> (js_error + folder_row list) \<times> netsuite" where
  "runFoldersNamedQuery ns names =
     (case invoke (FoldersNamedQuery names) ns of
        (True, ns') \<Rightarrow> (Inl platformError, ns')
      | (False, ns') \<Rightarrow> (Inr (filter (\<lambda>f. folder_name f \<in> set names) (folders ns')), ns'))"

text \<open>An identifier that no folder and no file of the cabinet has.\<close>

definition freshId :: "netsuite \<Rightarrow> int" where
  "freshId ns = 1 + foldr max (map folder_id (folders ns) @ map file_id (files ns)) 0"

text \<open>
  Modelled from the spec: saving a new folder record appends a folder node under the given
  parent and yields its new identifier.
\<close>

definition folderSave :: "netsuite \<Rightarrow> string \<Rightarrow> int \<Rightarrow> (js_error + int) \<times> netsuite" where
  "folderSave ns folderName parent =
     (case invoke (FolderSave folderName parent) ns of
        (True, ns') \<Rightarrow> (Inl platformError, ns')
      | (False, ns') \<Rightarrow>
          (let i = freshId ns' in
           (Inr i, ns'\<lparr>folders := folders ns' @
              [\<lparr>folder_id = i, folder_name = folderName, folder_parent = Some parent\<rparr>]\<rparr>)))"

text \<open>
  Modelled from the spec: \<^verbatim>\<open>file.create(options).save()\<close>. A file record is
  identified by its (name, folder) pair. With \<^verbatim>\<open>conflictResolution: OVERWRITE\<close> and a
  file of that name in that folder, the write replaces the contents and preserves the
  original file identifier (the source says the same at its lines 13-14 and 150). Otherwise
  it is a plain create: a save that does not throw yields a new identifier, and the new
  record is the one that holds the pair from then on.
\<close>

definition fileSave :: "netsuite \<Rightarrow> file_options \<Rightarrow> (js_error + int) \<times> netsuite" where
  "fileSave ns opts =
     (case invoke (FileSave opts) ns of
        (True, ns') \<Rightarrow> (Inl platformError, ns')
      | (False, ns') \<Rightarrow>
          (case (opt_conflictResolution opts,
                 find (\<lambda>f. file_name f = opt_name opts \<and> file_folder f = opt_folder opts)
                   (files ns')) of
             (Some OVERWRITE, Some old) \<Rightarrow>
               (Inr (file_id old),
                ns'\<lparr>files := map (\<lambda>f. if file_id f = file_id old
                                         then f\<lparr>file_contents := opt_contents opts\<rparr> else f)
                                 (files ns')\<rparr>)
           | _ \<Rightarrow>
               (let i = freshId ns' in
                (Inr i, ns'\<lparr>files :=
                   filter (\<lambda>f. \<not> (file_name f = opt_name opts \<and> file_folder f = opt_folder opts))
                     (files ns') @
                   [\<lparr>file_id = i, file_name = opt_name opts, file_folder = opt_folder opts,
                     file_contents = opt_contents opts\<rparr>]\<rparr>))))"

section \<open>The RESTlet: \<^verbatim>\<open>netsuite-restlet/autoUploadRESTlet.js\<close>\<close>

text \<open>
  The \<^verbatim>\<open>CONFIG\<close> object. Calls of \<^verbatim>\<open>logDebug\<close>, \<^verbatim>\<open>log.audit\<close> and
  \<^verbatim>\<open>log.error\<close> write to the platform's execution log only and are left out, and so
  is the \<^verbatim>\<open>duration\<close> field of the response, which reads the clock.
\<close>

definition defaultRootFolder :: int where
  "defaultRootFolder = - 15"

definition allowedExtensions :: "string list" where
  "allowedExtensions = []"

definition maxFileSize :: nat where
  "maxFileSize = 5 * 1024 * 1024"

text \<open>
  The request body (\<^verbatim>\<open>context\<close>), which is also the payload that the editor extension
  sends. \<open>None\<close> is an absent (\<^verbatim>\<open>undefined\<close> or \<^verbatim>\<open>null\<close>) field; \<open>folder\<close> is the
  numeric identifier of the interface description.
\<close>

record upload_request =
  path :: "string option"
  content :: "string option"
  encoding :: "string option"
  folder :: "int option"
  description :: "string option"

datatype validation = Valid | Invalid string string

datatype response =
    Success (resp_message: string) (resp_fileId: int) (resp_path: string) (resp_action: string)
  | Failure (resp_error: string) (resp_failure: string)

definition tooLargeMessage :: "nat \<Rightarrow> string" where
  "tooLargeMessage contentSize =
     ''File size ('' @ showNat contentSize @ '' bytes) exceeds maximum allowed ('' @
     showNat maxFileSize @ '' bytes)''"

definition validateRequest :: "upload_request \<Rightarrow> validation" where
  "validateRequest context =
     (case path context of
        None \<Rightarrow> Invalid ''MISSING_PATH'' ''File path is required''
      | Some p \<Rightarrow>
          if p = [] then Invalid ''MISSING_PATH'' ''File path is required''
          else (case content context of
             None \<Rightarrow> Invalid ''MISSING_CONTENT'' ''File content is required''
           | Some c \<Rightarrow>
               if length c > maxFileSize
               then Invalid ''FILE_TOO_LARGE'' (tooLargeMessage (length c))
               else if includesStr p ''..''
               then Invalid ''INVALID_PATH'' ''Path traversal (..) is not allowed''
               else Valid))"

definition sanitizePath :: "string \<Rightarrow> string" where
  "sanitizePath filePath =
     (let cleanPath = collapseSlashes (replaceBackslashes (trim filePath))
      in if startsWith cleanPath ''/'' then cleanPath else ''/'' @ cleanPath)"

record path_parts =
  fileName :: string
  folderPath :: string
  fullPath :: string

definition parseFilePath :: "string \<Rightarrow> path_parts" where
  "parseFilePath filePath =
     (let cleanPath = stripLeadingSlashes filePath;
          parts = split slash cleanPath
      in \<lparr>fileName = last parts, folderPath = join (butlast parts), fullPath = cleanPath\<rparr>)"

definition typeMap :: "(string \<times> file_type) list" where
  "typeMap =
     [(''js'', JAVASCRIPT), (''ts'', JAVASCRIPT),
      (''html'', HTMLDOC), (''htm'', HTMLDOC), (''css'', STYLESHEET),
      (''scss'', PLAINTEXT), (''less'', PLAINTEXT),
      (''xml'', XMLDOC), (''json'', JSON), (''txt'', PLAINTEXT), (''csv'', CSV),
      (''xls'', EXCEL), (''xlsx'', EXCEL),
      (''pdf'', PDF), (''doc'', WORD), (''docx'', WORD),
      (''png'', PNGIMAGE), (''jpg'', JPGIMAGE), (''jpeg'', JPGIMAGE), (''gif'', GIFIMAGE),
      (''svg'', SVGIMAGE), (''ico'', ICON), (''bmp'', BMPIMAGE),
      (''zip'', ZIP), (''gzip'', GZIP), (''tar'', TAR),
      (''mp3'', MP3), (''mp4'', MP4), (''mov'', MOV), (''ppt'', POWERPOINT),
      (''pptx'', POWERPOINT), (''ftl'', FREEMARKER)]"

text \<open>File names that are property names of \<^verbatim>\<open>Object.prototype\<close> are outside the model.\<close>

definition getFileType :: "string \<Rightarrow> file_type" where
  "getFileType name =
     (let extension = toLowerCase (last (split (CHR ''.'') name))
      in case map_of typeMap extension of None \<Rightarrow> PLAINTEXT | Some t \<Rightarrow> t)"

text \<open>
  The first lines of \<^verbatim>\<open>findFolderByPath\<close> and \<^verbatim>\<open>findOrCreateFolderPath\<close>: normalise,
  split, drop the blank segments, then skip a first segment \<^verbatim>\<open>SuiteScripts\<close>.
\<close>

definition folderParts :: "string \<Rightarrow> string list" where
  "folderParts p =
     filter (\<lambda>q. q \<noteq> [] \<and> trim q \<noteq> [])
       (split slash (stripSlashes (collapseSlashes (replaceBackslashes p))))"

definition skipSuiteScripts :: "string list \<Rightarrow> string list" where
  "skipSuiteScripts parts =
     (case parts of
        [] \<Rightarrow> []
      | q # qs \<Rightarrow> if toLowerCase q = ''suitescripts'' then qs else q # qs)"

text \<open>
  \<^verbatim>\<open>findFolderByPath\<close>: \<open>None\<close> is \<^verbatim>\<open>null\<close>. A query that throws is caught and gives
  \<^verbatim>\<open>null\<close>; so does a first row whose id is falsy.
\<close>

definition findFolderByPath :: "netsuite \<Rightarrow> string \<Rightarrow> int option \<times> netsuite" where
  "findFolderByPath ns p =
     (if p = [] then (Some defaultRootFolder, ns)
      else
        let parts = skipSuiteScripts (folderParts p)
        in if parts = [] then (Some defaultRootFolder, ns)
           else (case runFolderPathQuery ns defaultRootFolder parts of
              (Inl e, ns') \<Rightarrow> (None, ns')
            | (Inr results, ns') \<Rightarrow>
                (case results of
                   [] \<Rightarrow> (None, ns')
                 | r # rs \<Rightarrow> if r \<noteq> 0 then (Some r, ns') else (None, ns'))))"

record existing_file =
  ex_id :: int
  ex_name :: string
  ex_folderId :: int

definition findFileByFullPath ::
  "netsuite \<Rightarrow> string \<Rightarrow> string \<Rightarrow> string \<Rightarrow> existing_file option \<times> netsuite" where
  "findFileByFullPath ns filePath p name =
     (case findFolderByPath ns p of
        (None, ns') \<Rightarrow> (None, ns')
      | (Some folderId, ns') \<Rightarrow>
          if folderId = 0 then (None, ns')
          else (case runFileQuery ns' name folderId of
             (Inl e, ns'') \<Rightarrow> (None, ns'')
           | (Inr results, ns'') \<Rightarrow>
               (case results of
                  [] \<Rightarrow> (None, ns'')
                | r # rs \<Rightarrow>
                    (Some \<lparr>ex_id = file_id r, ex_name = file_name r, ex_folderId = folderId\<rparr>,
                     ns''))))"

text \<open>
  \<^verbatim>\<open>foldersByParent\<close>: an object of objects, parent first, then name; a later row
  replaces an earlier one with the same parent and name. The objects are read as maps of
  their own properties: a folder name that is a member of \<^verbatim>\<open>Object.prototype\<close>
  (\<^verbatim>\<open>constructor\<close>, \<^verbatim>\<open>toString\<close> and the like), for which the code reads that member in
  place of an identifier, is outside the model.
\<close>

definition foldersByParent :: "folder_row list \<Rightarrow> (int option \<rightharpoonup> (string \<rightharpoonup> int))" where
  "foldersByParent allFolders =
     fold (\<lambda>f m. m(folder_parent f \<mapsto>
             (case m (folder_parent f) of None \<Rightarrow> Map.empty | Some names \<Rightarrow> names)
               (folder_name f \<mapsto> folder_id f)))
       allFolders Map.empty"

text \<open>
  The loop of \<^verbatim>\<open>findOrCreateFolderPath\<close> over the remaining segments. \<open>Inl\<close> is an
  exception of \<^verbatim>\<open>folderRecord.save()\<close>, which leaves the loop.
\<close>

fun traverseFolders ::
  "netsuite \<Rightarrow> (int option \<rightharpoonup> (string \<rightharpoonup> int)) \<Rightarrow> int \<Rightarrow> string list \<Rightarrow>
     (js_error + int) \<times> netsuite" where
  "traverseFolders ns m currentFolderId [] = (Inr currentFolderId, ns)"
| "traverseFolders ns m currentFolderId (folderName # rest) =
     (case (case m (Some currentFolderId) of None \<Rightarrow> None | Some names \<Rightarrow> names folderName) of
        Some found \<Rightarrow>
          if found \<noteq> 0 then traverseFolders ns m found rest
          else (case folderSave ns folderName currentFolderId of
             (Inl e, ns') \<Rightarrow> (Inl e, ns')
           | (Inr created, ns') \<Rightarrow> traverseFolders ns' m created rest)
      | None \<Rightarrow>
          (case folderSave ns folderName currentFolderId of
             (Inl e, ns') \<Rightarrow> (Inl e, ns')
           | (Inr created, ns') \<Rightarrow> traverseFolders ns' m created rest))"

text \<open>
  \<^verbatim>\<open>findOrCreateFolderPath\<close>: whatever is thrown inside its \<^verbatim>\<open>try\<close> block ends in
  \<^verbatim>\<open>return CONFIG.defaultRootFolder\<close>.
\<close>

definition findOrCreateFolderPath :: "netsuite \<Rightarrow> string \<Rightarrow> int \<times> netsuite" where
  "findOrCreateFolderPath ns p =
     (if p = [] then (defaultRootFolder, ns)
      else
        let parts = skipSuiteScripts (folderParts p)
        in if parts = [] then (defaultRootFolder, ns)
           else (case findFolderByPath ns (join parts) of
              (existingFolderId, ns1) \<Rightarrow>
                if existingFolderId \<noteq> None \<and> existingFolderId \<noteq> Some 0
                then (the existingFolderId, ns1)
                else (case runFoldersNamedQuery ns1 parts of
                   (Inl e, ns2) \<Rightarrow> (defaultRootFolder, ns2)
                 | (Inr allFolders, ns2) \<Rightarrow>
                     (case traverseFolders ns2 (foldersByParent allFolders)
                             defaultRootFolder parts of
                        (Inl e, ns3) \<Rightarrow> (defaultRootFolder, ns3)
                      | (Inr currentFolderId, ns3) \<Rightarrow> (currentFolderId, ns3)))))"

text \<open>The \<^verbatim>\<open>catch\<close> block of \<^verbatim>\<open>post\<close>.\<close>

definition errorResponse :: "js_error \<Rightarrow> response" where
  "errorResponse e =
     Failure (if err_name e = [] then ''UNKNOWN_ERROR'' else err_name e)
       (if err_message e = [] then err_name e else err_message e)"

definition typeError :: js_error where
  "typeError = JsError ''TypeError'' ''Cannot read properties of undefined''"

text \<open>
  The two branches of \<^verbatim>\<open>post\<close>: \<^verbatim>\<open>if (existingFile) { ... } else { ... }\<close>.
\<close>

definition updateExistingFile ::
  "netsuite \<Rightarrow> existing_file \<Rightarrow> string \<Rightarrow> file_type \<Rightarrow> string \<Rightarrow> string \<Rightarrow> string \<Rightarrow>
     string \<Rightarrow> response \<times> netsuite" where
  "updateExistingFile ns existingFile name fileType contents descr enc filePath =
     (case fileSave ns
             \<lparr>opt_name = name, opt_fileType = fileType,
               opt_folder = ex_folderId existingFile,
               opt_contents = contents, opt_description = descr,
               opt_encoding = (if enc = ''base64'' then BASE_64 else UTF_8),
               opt_conflictResolution = Some OVERWRITE\<rparr> of
        (Inl e, ns') \<Rightarrow> (errorResponse e, ns')
      | (Inr savedFileId, ns') \<Rightarrow>
          (Success ''File updated successfully'' savedFileId filePath ''update'', ns'))"

text \<open>
  The folder of the create branch:
  \<^verbatim>\<open>context.folder ? parseInt(context.folder, 10) : findOrCreateFolderPath(folderPath)\<close>.
\<close>

abbreviation createFolder :: "netsuite \<Rightarrow> int option \<Rightarrow> string \<Rightarrow> int \<times> netsuite" where
  "createFolder ns contextFolder p \<equiv>
     (case contextFolder of
        None \<Rightarrow> findOrCreateFolderPath ns p
      | Some f \<Rightarrow> if f \<noteq> 0 then (f, ns) else findOrCreateFolderPath ns p)"

definition createNewFile ::
  "netsuite \<Rightarrow> int option \<Rightarrow> string \<Rightarrow> string \<Rightarrow> file_type \<Rightarrow> string \<Rightarrow> string \<Rightarrow> string \<Rightarrow>
     string \<Rightarrow> response \<times> netsuite" where
  "createNewFile ns contextFolder p name fileType contents descr enc filePath =
     (case createFolder ns contextFolder p of
        (folderId, ns1) \<Rightarrow>
          (case fileSave ns1
                  \<lparr>opt_name = name, opt_fileType = fileType,
                    opt_folder = folderId,
                    opt_contents = contents, opt_description = descr,
                    opt_encoding = (if enc = ''base64'' then BASE_64 else UTF_8),
                    opt_conflictResolution = None\<rparr> of
             (Inl e, ns2) \<Rightarrow> (errorResponse e, ns2)
           | (Inr savedFileId, ns2) \<Rightarrow>
               (Success ''File created successfully'' savedFileId filePath ''create'', ns2)))"

text \<open>
  \<^verbatim>\<open>post\<close>. After a passed validation the path and the content are present; the
  branches for an absent one are the \<^verbatim>\<open>TypeError\<close> that the \<^verbatim>\<open>catch\<close> block would
  report.
\<close>

definition post :: "netsuite \<Rightarrow> upload_request \<Rightarrow> response \<times> netsuite" where
  "post ns context =
     (case validateRequest context of
        Invalid err msg \<Rightarrow> (Failure err msg, ns)
      | Valid \<Rightarrow>
          (case (path context, content context) of
             (Some rawPath, Some contents) \<Rightarrow>
               (let filePath = sanitizePath rawPath;
                    enc = orElse (encoding context) ''utf8'';
                    descr = orElse (description context) ''Uploaded via Auto-Upload'';
                    pathParts = parseFilePath filePath;
                    name = fileName pathParts;
                    ext = toLowerCase (last (split (CHR ''.'') name))
                in if allowedExtensions \<noteq> [] \<and> ext \<notin> set allowedExtensions
                   then (Failure ''INVALID_EXTENSION''
                           (''File extension .'' @ ext @ '' is not allowed''), ns)
                   else
                     (let fileType = getFileType name
                      in case findFileByFullPath ns filePath (folderPath pathParts) name of
                        (Some existingFile, ns1) \<Rightarrow>
                          updateExistingFile ns1 existingFile name fileType contents descr enc
                            filePath
                      | (None, ns1) \<Rightarrow>
                          createNewFile ns1 (folder context) (folderPath pathParts) name
                            fileType contents descr enc filePath))
           | _ \<Rightarrow> (errorResponse typeError, ns)))"

section \<open>The editor extension: \<^verbatim>\<open>vscode-extension/src/extension.js\<close>\<close>

text \<open>
  The state of the extension host that the modelled functions read and write: the files of
  the workspace, the module-level \<^verbatim>\<open>envConfigCache\<close> and \<^verbatim>\<open>uploadHistory\<close>, the
  string-valued and the numeric settings of the section \<^verbatim>\<open>netsuite-auto-upload\<close> as
  \<^verbatim>\<open>config.get\<close> returns them, the messages written to the output channel (without
  their time stamps and data objects) and the requests handed to \<^verbatim>\<open>https.request\<close>. Objects and maps are association lists read with \<open>map_of\<close>: the
  first binding of a key is the current one. The status bar and the notifications are
  left out.
\<close>

record upload_record =
  hist_file :: string
  hist_localPath :: string
  hist_netSuitePath :: string
  hist_action :: "string option"
  hist_fileId :: "int option"

record http_request =
  req_hostname :: string
  req_port :: string
  req_path :: string
  req_method :: string
  req_authorization :: string
  req_body :: "upload_request option"

record editor =
  fileSystem :: "(string \<times> string) list"
  envConfigCache :: "(string \<times> (string \<times> string) list) list"
  settings :: "(string \<times> string) list"
  numericSettings :: "(string \<times> nat) list"
  outputChannel :: "string list"
  uploadHistory :: "upload_record list"
  requests :: "http_request list"

text \<open>
  Node's \<^verbatim>\<open>path.join\<close>, \<^verbatim>\<open>path.relative\<close> and \<^verbatim>\<open>path.basename\<close> in their POSIX
  form, for absolute directories and normalised relative names: \<open>pathRelative\<close> drops the
  segments that both paths share and climbs with \<^verbatim>\<open>..\<close> out of the rest of the directory.
\<close>

definition pathJoin :: "string \<Rightarrow> string \<Rightarrow> string" where
  "pathJoin dir name = dir @ ''/'' @ name"

fun dropCommon :: "string list \<Rightarrow> string list \<Rightarrow> string list \<times> string list" where
  "dropCommon (x # xs) (y # ys) = (if x = y then dropCommon xs ys else (x # xs, y # ys))"
| "dropCommon xs ys = (xs, ys)"

definition pathSegments :: "string \<Rightarrow> string list" where
  "pathSegments p = filter (\<lambda>q. q \<noteq> []) (split slash p)"

definition pathRelative :: "string \<Rightarrow> string \<Rightarrow> string" where
  "pathRelative dir file =
     (case dropCommon (pathSegments dir) (pathSegments file) of
        (up, down) \<Rightarrow> join (replicate (length up) ''..'' @ down))"

definition pathBasename :: "string \<Rightarrow> string" where
  "pathBasename p = last (split slash p)"

definition log :: "string \<Rightarrow> editor \<Rightarrow> editor" where
  "log message ed = ed\<lparr>outputChannel := outputChannel ed @ [message]\<rparr>"

text \<open>
  \<^verbatim>\<open>config.get(key) || fallback\<close> for a numeric setting, and a string setting inside a
  template literal, where an absent one reads \<^verbatim>\<open>undefined\<close>.
\<close>

definition numberOr :: "string \<Rightarrow> nat \<Rightarrow> editor \<Rightarrow> nat" where
  "numberOr key fallback ed =
     (case map_of (numericSettings ed) key of
        None \<Rightarrow> fallback
      | Some n \<Rightarrow> if n = 0 then fallback else n)"

definition showSetting :: "string \<Rightarrow> editor \<Rightarrow> string" where
  "showSetting key ed = (case map_of (settings ed) key of None \<Rightarrow> ''undefined'' | Some v \<Rightarrow> v)"

text \<open>\<^verbatim>\<open>parseEnvFile\<close>: one line, then the loop over the lines; a later line wins.\<close>

definition unquote :: "string \<Rightarrow> string" where
  "unquote v =
     (if (startsWith v [CHR 0x22] \<and> endsWith v [CHR 0x22]) \<or>
         (startsWith v [CHR 0x27] \<and> endsWith v [CHR 0x27])
      then butlast (tl v) else v)"

definition parseEnvLine :: "string \<Rightarrow> (string \<times> string) option" where
  "parseEnvLine line =
     (let trimmed = trim line
      in if trimmed = [] \<or> startsWith trimmed ''#'' then None
         else (case indexOf trimmed ''='' of
            None \<Rightarrow> None
          | Some eqIndex \<Rightarrow>
              if eqIndex > 0
              then Some (trim (take eqIndex trimmed), unquote (trim (drop (eqIndex + 1) trimmed)))
              else None))"

definition parseEnvFile :: "string \<Rightarrow> (string \<times> string) list" where
  "parseEnvFile text =
     fold (\<lambda>line result. case parseEnvLine line of None \<Rightarrow> result | Some kv \<Rightarrow> kv # result)
       (split (CHR 0x0A) text) []"

definition envFiles :: "string list" where
  "envFiles = [''.env'', ''.env.local'', ''.netsuite.env'']"

text \<open>
  \<^verbatim>\<open>loadEnvConfig\<close>. \<open>None\<close> is a missing workspace folder. On a cache miss the three
  candidate files are read in order, a later file overriding an earlier one, and the result
  is cached under the workspace path.
\<close>

definition loadEnvFile ::
  "string \<Rightarrow> string \<Rightarrow> (string \<times> string) list \<times> editor \<Rightarrow> (string \<times> string) list \<times> editor" where
  "loadEnvFile wsPath name acc =
     (case acc of (envConfig, ed) \<Rightarrow>
        (case map_of (fileSystem ed) (pathJoin wsPath name) of
           None \<Rightarrow> (envConfig, ed)
         | Some text \<Rightarrow>
             (parseEnvFile text @ envConfig, log (''Loaded credentials from: '' @ name) ed)))"

definition loadEnvConfig :: "string option \<Rightarrow> editor \<Rightarrow> (string \<times> string) list \<times> editor" where
  "loadEnvConfig workspaceFolder ed =
     (case workspaceFolder of
        None \<Rightarrow> ([], ed)
      | Some wsPath \<Rightarrow>
          (case map_of (envConfigCache ed) wsPath of
             Some cached \<Rightarrow> (cached, ed)
           | None \<Rightarrow>
               (case fold (loadEnvFile wsPath) envFiles ([], ed) of
                  (envConfig, ed') \<Rightarrow>
                    (envConfig,
                     ed'\<lparr>envConfigCache := (wsPath, envConfig) # envConfigCache ed'\<rparr>))))"

definition clearEnvCache :: "string option \<Rightarrow> editor \<Rightarrow> editor" where
  "clearEnvCache workspaceFolder ed =
     (case workspaceFolder of
        None \<Rightarrow> ed\<lparr>envConfigCache := []\<rparr>
      | Some wsPath \<Rightarrow> ed\<lparr>envConfigCache := filter (\<lambda>kv. fst kv \<noteq> wsPath) (envConfigCache ed)\<rparr>)"

definition envKeyMap :: "(string \<times> string list) list" where
  "envKeyMap =
     [(''restletUrl'', [''NS_RESTLET_URL'', ''NETSUITE_RESTLET_URL'']),
      (''accountId'', [''NS_ACCOUNT_ID'', ''NETSUITE_ACCOUNT_ID'']),
      (''oauth.consumerKey'', [''NS_CONSUMER_KEY'', ''NETSUITE_CONSUMER_KEY'']),
      (''oauth.consumerSecret'', [''NS_CONSUMER_SECRET'', ''NETSUITE_CONSUMER_SECRET'']),
      (''oauth.tokenId'', [''NS_TOKEN_ID'', ''NETSUITE_TOKEN_ID'']),
      (''oauth.tokenSecret'', [''NS_TOKEN_SECRET'', ''NETSUITE_TOKEN_SECRET'']),
      (''uploadFrom'', [''NS_UPLOAD_FROM'', ''NETSUITE_UPLOAD_FROM'']),
      (''watchFolder'', [''NS_WATCH_FOLDER'', ''NETSUITE_WATCH_FOLDER'']),
      (''rootPath'', [''NS_ROOT_PATH'', ''NETSUITE_ROOT_PATH''])]"

definition defaults :: "(string \<times> string) list" where
  "defaults = [(''uploadFrom'', ''dist''), (''watchFolder'', ''src''), (''rootPath'', ''/SuiteScripts'')]"

text \<open>The loop \<^verbatim>\<open>for (const envKey of envKeys)\<close> of \<^verbatim>\<open>getCredential\<close>.\<close>

fun firstEnvValue :: "(string \<times> string) list \<Rightarrow> string list \<Rightarrow> string option" where
  "firstEnvValue envConfig [] = None"
| "firstEnvValue envConfig (envKey # envKeys) =
     (if truthy (map_of envConfig envKey) then map_of envConfig envKey
      else firstEnvValue envConfig envKeys)"

text \<open>
  The part of \<^verbatim>\<open>getCredential\<close> after the call of \<^verbatim>\<open>loadEnvConfig\<close>: the value of a key
  from the loaded \<^verbatim>\<open>.env\<close> values and the settings. \<open>None\<close> is \<^verbatim>\<open>undefined\<close>.
\<close>

definition credentialValue ::
  "(string \<times> string) list \<Rightarrow> (string \<times> string) list \<Rightarrow> string \<Rightarrow> string option" where
  "credentialValue envConfig config key =
     (case (case map_of envKeyMap key of
              None \<Rightarrow> None
            | Some envKeys \<Rightarrow> firstEnvValue envConfig envKeys) of
        Some v \<Rightarrow> Some v
      | None \<Rightarrow>
          (let v = map_of config key
           in if \<not> truthy v
              then (case map_of defaults key of None \<Rightarrow> v | Some d \<Rightarrow> Some d)
              else v))"

definition getCredential :: "string \<Rightarrow> string option \<Rightarrow> editor \<Rightarrow> string option \<times> editor" where
  "getCredential key workspaceFolder ed =
     (case loadEnvConfig workspaceFolder ed of
        (envConfig, ed') \<Rightarrow> (credentialValue envConfig (settings ed') key, ed'))"

text \<open>
  \<^verbatim>\<open>calculateNetSuitePath\<close>. Two of its steps occur more than once:
  \<^verbatim>\<open>if (p.startsWith(q)) p = p.substring(q.length)\<close> and
  \<^verbatim>\<open>if (!p.startsWith('/')) p = '/' + p\<close>.
\<close>

definition removePrefix :: "string \<Rightarrow> string \<Rightarrow> string" where
  "removePrefix q p = (if startsWith p q then drop (length q) p else p)"

definition ensureLeadingSlash :: "string \<Rightarrow> string" where
  "ensureLeadingSlash p = (if startsWith p ''/'' then p else ''/'' @ p)"

definition calculateNetSuitePath :: "string \<Rightarrow> string \<Rightarrow> editor \<Rightarrow> string \<times> editor" where
  "calculateNetSuitePath relPath wsPath ed =
     (case getCredential ''uploadFrom'' (Some wsPath) ed of
        (v, ed1) \<Rightarrow>
          (let uploadFrom = orElse v ''dist'';
               normalizedPath =
                 removePrefix ''FileCabinet/''
                   (removePrefix (uploadFrom @ ''/'') (replaceBackslashes relPath))
           in case indexOf (toLowerCase normalizedPath) ''suitescripts/'' of
                Some suiteScriptsIndex \<Rightarrow>
                  (collapseSlashes (ensureLeadingSlash (drop suiteScriptsIndex normalizedPath)),
                   ed1)
              | None \<Rightarrow>
                  if startsWith (toLowerCase normalizedPath) ''suitescripts/''
                  then (collapseSlashes (''/'' @ normalizedPath), ed1)
                  else (case getCredential ''rootPath'' (Some wsPath) ed1 of
                     (r, ed2) \<Rightarrow>
                       (let rootPath = orElse r ''/SuiteScripts''
                        in (collapseSlashes
                              (ensureLeadingSlash
                                 (rootPath @ ''/'' @ removePrefix ''/'' normalizedPath)),
                            ed2)))))"

text \<open>\<^verbatim>\<open>resolveUploadFile\<close>\<close>

record upload_info =
  uploadPath :: string
  relativePath :: string
  netSuitePath :: string
  isMapped :: bool
  originalPath :: "string option"

definition resolveUploadFile :: "string \<Rightarrow> string \<Rightarrow> editor \<Rightarrow> upload_info \<times> editor" where
  "resolveUploadFile savedFilePath wsPath ed =
     (case getCredential ''uploadFrom'' (Some wsPath) ed of
        (u, ed1) \<Rightarrow>
          (case getCredential ''watchFolder'' (Some wsPath) ed1 of
             (w, ed2) \<Rightarrow>
               (let uploadFrom = orElse u ''dist'';
                    watchFolder = orElse w ''src'';
                    relPath = replaceBackslashes (pathRelative wsPath savedFilePath)
                in if uploadFrom = watchFolder
                   then (case calculateNetSuitePath relPath wsPath ed2 of
                      (ns, ed3) \<Rightarrow>
                        (\<lparr>uploadPath = savedFilePath, relativePath = relPath,
                           netSuitePath = ns, isMapped = False, originalPath = None\<rparr>, ed3))
                   else if startsWith relPath (watchFolder @ ''/'')
                   then
                     (let pathAfterWatch = drop (length watchFolder + 1) relPath;
                          mappedRelativePath = uploadFrom @ ''/'' @ pathAfterWatch;
                          mappedAbsolutePath = pathJoin wsPath mappedRelativePath
                      in case calculateNetSuitePath mappedRelativePath wsPath ed2 of
                           (ns, ed3) \<Rightarrow>
                             (\<lparr>uploadPath = mappedAbsolutePath,
                                relativePath = mappedRelativePath,
                                netSuitePath = ns, isMapped = True,
                                originalPath = Some savedFilePath\<rparr>, ed3))
                   else (case calculateNetSuitePath relPath wsPath ed2 of
                      (ns, ed3) \<Rightarrow>
                        (\<lparr>uploadPath = savedFilePath, relativePath = relPath,
                           netSuitePath = ns, isMapped = False, originalPath = None\<rparr>, ed3)))))"

text \<open>
  What \<^verbatim>\<open>makeAuthenticatedRequest\<close> takes from Node and from the libraries
  \<^verbatim>\<open>oauth-1.0a\<close> and \<^verbatim>\<open>crypto-js\<close>, none of them part of the repository: the parser
  behind \<^verbatim>\<open>new URL(url)\<close> (\<open>None\<close> when it throws), the reply that \<^verbatim>\<open>https.request\<close>
  obtains for a request, and the nonce, the time stamp, the signature and the percent
  encoding of the OAuth library.
\<close>

record url_parts =
  hostname :: string
  port :: string
  pathname :: string
  search :: string

record json_response =
  r_success :: bool
  r_message :: "string option"
  r_error :: "string option"
  r_fileId :: "int option"
  r_path :: "string option"
  r_action :: "string option"

datatype http_body = EmptyBody | Unparsable string | JsonBody json_response

datatype http_outcome = NetworkError string | RequestTimeout | HttpResponse nat http_body

record node =
  parseURL :: "string \<Rightarrow> url_parts option"
  endpoint :: "http_request \<Rightarrow> http_outcome"
  oauthNonce :: string
  oauthTimestamp :: string
  oauthSignature :: "string \<Rightarrow> string \<Rightarrow> string \<Rightarrow> string \<Rightarrow> string \<Rightarrow> string \<Rightarrow> string"
  percentEncode :: "string \<Rightarrow> string"

text \<open>
  \<^verbatim>\<open>String.prototype.replace\<close> with a string pattern: the first occurrence is replaced,
  and the replacement is expanded as the language defines it for a pattern without groups
  (\<^verbatim>\<open>$$\<close>, \<^verbatim>\<open>$&\<close>, the text before and the text after the match).
\<close>

fun getSubstitution :: "string \<Rightarrow> string \<Rightarrow> string \<Rightarrow> string \<Rightarrow> string" where
  "getSubstitution matched leftPart rightPart [] = []"
| "getSubstitution matched leftPart rightPart [c] = [c]"
| "getSubstitution matched leftPart rightPart (c # d # cs) =
     (if c = CHR ''$'' \<and> d = CHR ''$'' then CHR ''$'' # getSubstitution matched leftPart rightPart cs
      else if c = CHR ''$'' \<and> d = CHR ''&'' then matched @ getSubstitution matched leftPart rightPart cs
      else if c = CHR ''$'' \<and> d = CHR 0x60 then leftPart @ getSubstitution matched leftPart rightPart cs
      else if c = CHR ''$'' \<and> d = CHR 0x27 then rightPart @ getSubstitution matched leftPart rightPart cs
      else c # getSubstitution matched leftPart rightPart (d # cs))"

definition replaceFirst :: "string \<Rightarrow> string \<Rightarrow> string \<Rightarrow> string" where
  "replaceFirst s pattern replacement =
     (case indexOf s pattern of
        None \<Rightarrow> s
      | Some i \<Rightarrow>
          take i s @
          getSubstitution pattern (take i s) (drop (i + length pattern) s) replacement @
          drop (i + length pattern) s)"

definition dquote :: string where
  "dquote = [CHR 0x22]"

text \<open>
  Modelled from the spec: the Authorization value that the OAuth library builds from the
  signed request, \<^verbatim>\<open>OAuth\<close> and a blank followed by the \<^verbatim>\<open>oauth_*\<close> parameters of the
  interface description, each as \<^verbatim>\<open>name="value"\<close>.
\<close>

definition oauthParameters ::
  "node \<Rightarrow> string \<Rightarrow> string \<Rightarrow> string \<Rightarrow> string \<Rightarrow> string \<Rightarrow> string \<Rightarrow> string" where
  "oauthParameters nd url method consumerKey consumerSecret tokenId tokenSecret =
     ''oauth_consumer_key='' @ dquote @ percentEncode nd consumerKey @ dquote @
     '', oauth_token='' @ dquote @ percentEncode nd tokenId @ dquote @
     '', oauth_signature_method='' @ dquote @ ''HMAC-SHA256'' @ dquote @
     '', oauth_timestamp='' @ dquote @ oauthTimestamp nd @ dquote @
     '', oauth_nonce='' @ dquote @ oauthNonce nd @ dquote @
     '', oauth_signature='' @ dquote @
       percentEncode nd
         (oauthSignature nd url method consumerKey consumerSecret tokenId tokenSecret) @
     dquote"

definition oauthToHeader ::
  "node \<Rightarrow> string \<Rightarrow> string \<Rightarrow> string \<Rightarrow> string \<Rightarrow> string \<Rightarrow> string \<Rightarrow> string" where
  "oauthToHeader nd url method consumerKey consumerSecret tokenId tokenSecret =
     ''OAuth '' @ oauthParameters nd url method consumerKey consumerSecret tokenId tokenSecret"

definition credentialsError :: js_error where
  "credentialsError =
     JsError ''Error''
       ''OAuth credentials not configured. Add them to .env file or run Configure command.''"

definition invalidUrlError :: js_error where
  "invalidUrlError = JsError ''TypeError'' ''Invalid URL''"

definition requiredCredentials :: "string list" where
  "requiredCredentials =
     [''oauth.consumerKey'', ''oauth.consumerSecret'', ''oauth.tokenId'', ''oauth.tokenSecret'',
      ''accountId'']"

text \<open>The handlers of \<^verbatim>\<open>https.request\<close> in \<^verbatim>\<open>makeAuthenticatedRequest\<close>.\<close>

definition handleOutcome ::
  "nat \<Rightarrow> http_outcome \<Rightarrow> editor \<Rightarrow> (js_error + json_response) \<times> editor" where
  "handleOutcome timeout outcome ed =
     (case outcome of
        NetworkError m \<Rightarrow>
          (Inl (JsError ''Error'' (''Network error: '' @ m)), log ''Request error'' ed)
      | RequestTimeout \<Rightarrow>
          (Inl (JsError ''Error'' (''Request timeout after '' @ showNat timeout @ ''ms'')), ed)
      | HttpResponse status body \<Rightarrow>
          (case body of
             EmptyBody \<Rightarrow>
               (if 200 \<le> status \<and> status < 300
                then Inr \<lparr>r_success = True, r_message = Some ''Request completed'',
                          r_error = None, r_fileId = None, r_path = None, r_action = None\<rparr>
                else Inl (JsError ''Error'' (''HTTP '' @ showNat status @ '': Empty response'')),
                log ''Response received'' ed)
           | Unparsable raw \<Rightarrow>
               (Inl (JsError ''Error'' (''Invalid response: '' @ take 100 raw)),
                log ''Parse error'' (log ''Response received'' ed))
           | JsonBody r \<Rightarrow>
               (if 200 \<le> status \<and> status < 300 then Inr r
                else Inl (JsError ''Error'' (orElse (r_message r) (''HTTP '' @ showNat status))),
                log ''Response received'' ed)))"

text \<open>
  \<^verbatim>\<open>makeAuthenticatedRequest\<close>. The request is appended to \<open>requests\<close> when it is handed
  to \<^verbatim>\<open>https.request\<close>; the fixed content headers are left out.
\<close>

definition makeAuthenticatedRequest ::
  "node \<Rightarrow> string \<Rightarrow> string \<Rightarrow> upload_request option \<Rightarrow> string option \<Rightarrow> editor \<Rightarrow>
     (js_error + json_response) \<times> editor" where
  "makeAuthenticatedRequest nd url method payload workspaceFolder ed =
     (case getCredential ''oauth.consumerKey'' workspaceFolder ed of (consumerKey, ed1) \<Rightarrow>
      case getCredential ''oauth.consumerSecret'' workspaceFolder ed1 of (consumerSecret, ed2) \<Rightarrow>
      case getCredential ''oauth.tokenId'' workspaceFolder ed2 of (tokenId, ed3) \<Rightarrow>
      case getCredential ''oauth.tokenSecret'' workspaceFolder ed3 of (tokenSecret, ed4) \<Rightarrow>
      case getCredential ''accountId'' workspaceFolder ed4 of (accountId, ed5) \<Rightarrow>
        if \<not> truthy consumerKey \<or> \<not> truthy consumerSecret \<or> \<not> truthy tokenId \<or>
           \<not> truthy tokenSecret \<or> \<not> truthy accountId
        then (Inl credentialsError, ed5)
        else
          (let oauthHeader =
                 oauthToHeader nd url method (the consumerKey) (the consumerSecret)
                   (the tokenId) (the tokenSecret);
               authHeader =
                 replaceFirst oauthHeader ''OAuth ''
                   (''OAuth realm='' @ dquote @ the accountId @ dquote @ '','')
           in case parseURL nd url of
                None \<Rightarrow> (Inl invalidUrlError, ed5)
              | Some urlParsed \<Rightarrow>
                  (let req = \<lparr>req_hostname = hostname urlParsed,
                               req_port = orElse (Some (port urlParsed)) ''443'',
                               req_path = pathname urlParsed @ search urlParsed,
                               req_method = method,
                               req_authorization = authHeader, req_body = payload\<rparr>
                   in handleOutcome (numberOr ''requestTimeout'' 30000 ed) (endpoint nd req)
                        ((log ''Making request'' ed5)\<lparr>requests := requests ed5 @ [req]\<rparr>))))"

text \<open>
  \<^verbatim>\<open>uploadFile\<close>. A document is its file name and the workspace folder that the editor
  reports for it. Of the wait of \<^verbatim>\<open>waitForBuild\<close> milliseconds before the check of a
  mapped file, the model has the line written to the output channel.
\<close>

record document =
  doc_fileName :: string
  doc_workspaceFolder :: "string option"

datatype upload_outcome =
    NotConfigured | NoWorkspace | BuildOutputMissing | Uploaded json_response | UploadFailed string

definition recordUpload :: "upload_info \<Rightarrow> json_response \<Rightarrow> editor \<Rightarrow> editor" where
  "recordUpload info response ed =
     (let history =
            \<lparr>hist_file = pathBasename (uploadPath info), hist_localPath = uploadPath info,
              hist_netSuitePath = netSuitePath info, hist_action = r_action response,
              hist_fileId = r_fileId response\<rparr> # uploadHistory ed
      in ed\<lparr>uploadHistory := (if length history > 50 then butlast history else history)\<rparr>)"

definition uploadFile :: "node \<Rightarrow> document \<Rightarrow> editor \<Rightarrow> upload_outcome \<times> editor" where
  "uploadFile nd doc ed =
     (case getCredential ''restletUrl'' (doc_workspaceFolder doc) ed of
        (restletUrl, ed1) \<Rightarrow>
          if \<not> truthy restletUrl then (NotConfigured, ed1)
          else (case doc_workspaceFolder doc of
             None \<Rightarrow> (NoWorkspace, log ''File not in workspace, skipping upload'' ed1)
           | Some wsPath \<Rightarrow>
               (case resolveUploadFile (doc_fileName doc) wsPath ed1 of
                  (uploadInfo, ed2) \<Rightarrow>
                    (let ed2w =
                           (if isMapped uploadInfo
                            then log (''Waiting '' @ showNat (numberOr ''waitForBuild'' 500 ed) @
                                      ''ms for build...'') ed2
                            else ed2);
                         mappedNote =
                           (if isMapped uploadInfo
                            then '' (from '' @ showSetting ''uploadFrom'' ed @ '')'' else [])
                     in
                    if isMapped uploadInfo \<and> map_of (fileSystem ed2w) (uploadPath uploadInfo) = None
                    then (BuildOutputMissing, ed2w)
                    else
                      (let ed3 = log (''Uploading: '' @ pathBasename (uploadPath uploadInfo) @
                                      mappedNote) ed2w
                       in case map_of (fileSystem ed3) (uploadPath uploadInfo) of
                            None \<Rightarrow>
                              (UploadFailed (''ENOENT: no such file or directory, open '' @
                                             [CHR 0x27] @ uploadPath uploadInfo @ [CHR 0x27]),
                               log (''Upload failed: '' @ pathBasename (uploadPath uploadInfo)) ed3)
                          | Some text \<Rightarrow>
                              (case makeAuthenticatedRequest nd (the restletUrl) ''POST''
                                      (Some \<lparr>path = Some (netSuitePath uploadInfo),
                                              content = Some text, encoding = Some ''utf8'',
                                              folder = None,
                                              description =
                                                Some (''Uploaded via Auto-Upload from '' @
                                                      relativePath uploadInfo)\<rparr>)
                                      (Some wsPath) ed3 of
                                 (Inl e, ed4) \<Rightarrow>
                                   (UploadFailed (err_message e),
                                    log (''Upload failed: '' @
                                         pathBasename (uploadPath uploadInfo)) ed4)
                               | (Inr response, ed4) \<Rightarrow>
                                   if r_success response
                                   then (Uploaded response,
                                         recordUpload uploadInfo response
                                           (log (''Upload successful: '' @
                                                 pathBasename (uploadPath uploadInfo)) ed4))
                                   else (UploadFailed
                                           (orElse (r_message response)
                                              (orElse (r_error response) ''Upload failed'')),
                                         log (''Upload failed: '' @
                                              pathBasename (uploadPath uploadInfo)) ed4)))))))"

text \<open>
  The RESTlet as the endpoint behind the URL: the body of a POST request is handed to
  \<^verbatim>\<open>post\<close>, and what \<^verbatim>\<open>post\<close> returns comes back as JSON with status 200.
\<close>

definition jsonOf :: "response \<Rightarrow> json_response" where
  "jsonOf r =
     (case r of
        Success message fileId p action \<Rightarrow>
          \<lparr>r_success = True, r_message = Some message, r_error = None, r_fileId = Some fileId,
            r_path = Some p, r_action = Some action\<rparr>
      | Failure err message \<Rightarrow>
          \<lparr>r_success = False, r_message = Some message, r_error = Some err, r_fileId = None,
            r_path = None, r_action = None\<rparr>)"

definition restletEndpoint :: "netsuite \<Rightarrow> http_request \<Rightarrow> http_outcome" where
  "restletEndpoint ns req =
     (case req_body req of
        None \<Rightarrow> HttpResponse 200 EmptyBody
      | Some payload \<Rightarrow> HttpResponse 200 (JsonBody (jsonOf (fst (post ns payload)))))"

section \<open>The debounce timers of the extension\<close>

text \<open>
  The timers of \<^verbatim>\<open>debounceUpload\<close> on a clock in milliseconds. \<open>pendingTimers\<close> are the
  timers armed with \<^verbatim>\<open>setTimeout\<close> that have neither fired nor been cleared;
  \<open>debounceTimers\<close> is the module-level map from the file name of the saved document to
  the handle of its timer. \<open>started\<close> lists the documents handed to \<^verbatim>\<open>uploadFile\<close>,
  oldest first, and \<open>inFlight\<close> those whose upload has not settled yet.
\<close>

record pending_timer =
  timer_handle :: nat
  timer_deadline :: nat
  timer_file :: string

record dispatcher =
  clock :: nat
  debounceDelay :: "nat option"
  debounceTimers :: "(string \<times> nat) list"
  pendingTimers :: "pending_timer list"
  nextHandle :: nat
  started :: "string list"
  inFlight :: "string list"

text \<open>\<^verbatim>\<open>config.get('debounceDelay') || 1000\<close>\<close>

definition effectiveDelay :: "dispatcher \<Rightarrow> nat" where
  "effectiveDelay d = (case debounceDelay d of None \<Rightarrow> 1000 | Some n \<Rightarrow> if n = 0 then 1000 else n)"

definition clearTimeout :: "nat \<Rightarrow> dispatcher \<Rightarrow> dispatcher" where
  "clearTimeout h d = d\<lparr>pendingTimers := filter (\<lambda>t. timer_handle t \<noteq> h) (pendingTimers d)\<rparr>"

definition debounceUpload :: "string \<Rightarrow> dispatcher \<Rightarrow> dispatcher" where
  "debounceUpload filePath d =
     (let d1 = (case map_of (debounceTimers d) filePath of
                  None \<Rightarrow> d
                | Some h \<Rightarrow> clearTimeout h d);
          timer = nextHandle d1
      in d1\<lparr>pendingTimers := pendingTimers d1 @
               [\<lparr>timer_handle = timer, timer_deadline = clock d1 + effectiveDelay d1,
                 timer_file = filePath\<rparr>],
             nextHandle := timer + 1,
             debounceTimers :=
               (filePath, timer) # filter (\<lambda>kv. fst kv \<noteq> filePath) (debounceTimers d1)\<rparr>)"

text \<open>
  The callback of the timer: \<^verbatim>\<open>uploadFile(document); debounceTimers.delete(filePath)\<close>.
  \<^verbatim>\<open>uploadFile\<close> is asynchronous and is not awaited: the upload is in flight when the
  callback returns.
\<close>

definition fireTimer :: "pending_timer \<Rightarrow> dispatcher \<Rightarrow> dispatcher" where
  "fireTimer t d =
     d\<lparr>pendingTimers := filter (\<lambda>u. timer_handle u \<noteq> timer_handle t) (pendingTimers d),
       started := started d @ [timer_file t],
       inFlight := inFlight d @ [timer_file t],
       debounceTimers := filter (\<lambda>kv. fst kv \<noteq> timer_file t) (debounceTimers d)\<rparr>"

text \<open>
  Time passes: every pending timer whose deadline is reached fires, the earlier deadline
  first.
\<close>

definition elapse :: "nat \<Rightarrow> dispatcher \<Rightarrow> dispatcher" where
  "elapse ms d =
     (let d1 = d\<lparr>clock := clock d + ms\<rparr>
      in fold fireTimer
           (sort_key timer_deadline
              (filter (\<lambda>t. timer_deadline t \<le> clock d1) (pendingTimers d1))) d1)"

text \<open>
  The events of the event loop: a document is saved (and passes the filters of
  \<^verbatim>\<open>handleFileSave\<close>), time passes, an upload of a document settles, the setting
  \<^verbatim>\<open>debounceDelay\<close> is changed.
\<close>

datatype event = Save string | Elapse nat | Settle string | Configure "nat option"

fun step :: "event \<Rightarrow> dispatcher \<Rightarrow> dispatcher" where
  "step (Save filePath) d = debounceUpload filePath d"
| "step (Elapse ms) d = elapse ms d"
| "step (Settle filePath) d = d\<lparr>inFlight := remove1 filePath (inFlight d)\<rparr>"
| "step (Configure delay) d = d\<lparr>debounceDelay := delay\<rparr>"

definition run :: "dispatcher \<Rightarrow> event list \<Rightarrow> dispatcher" where
  "run d es = fold step es d"

definition activated :: dispatcher where
  "activated = \<lparr>clock = 0, debounceDelay = None, debounceTimers = [], pendingTimers = [],
                 nextHandle = 0, started = [], inFlight = []\<rparr>"

text \<open>A burst of saves of one document, each followed by a pause.\<close>

definition burst :: "string \<Rightarrow> nat list \<Rightarrow> event list" where
  "burst filePath pauses = concat (map (\<lambda>ms. [Save filePath, Elapse ms]) pauses)"

text \<open>
  The invariant of the timers: the pending timers belong to different files, and the handle
  of each is the entry of its file in \<open>debounceTimers\<close>.
\<close>

definition timersConsistent :: "dispatcher \<Rightarrow> bool" where
  "timersConsistent d \<longleftrightarrow>
     distinct (map timer_file (pendingTimers d)) \<and>
     (\<forall>t\<in>set (pendingTimers d).
        map_of (debounceTimers d) (timer_file t) = Some (timer_handle t))"

section \<open>Observing the platform calls of a run\<close>

text \<open>
  \<open>nextThrows ns\<close>: the next platform call throws. \<open>thrownCalls ns ns'\<close>: the platform
  calls made between the states \<open>ns\<close> and \<open>ns'\<close> that threw. \<open>advances ns ns' cs\<close>: the
  calls \<open>cs\<close> lead from \<open>ns\<close> to \<open>ns'\<close>, each consuming one entry of the schedule.
\<close>

definition thrownCalls :: "netsuite \<Rightarrow> netsuite \<Rightarrow> platform_call list" where
  "thrownCalls ns ns' =
     map fst (filter snd (zip (drop (length (calls ns)) (calls ns')) (faults ns)))"

definition nextThrows :: "netsuite \<Rightarrow> bool" where
  "nextThrows ns = (case faults ns of [] \<Rightarrow> False | b # bs \<Rightarrow> b)"

definition advances :: "netsuite \<Rightarrow> netsuite \<Rightarrow> platform_call list \<Rightarrow> bool" where
  "advances ns ns' cs \<longleftrightarrow> calls ns' = calls ns @ cs \<and> faults ns' = drop (length cs) (faults ns)"

definition isFolderStep :: "platform_call \<Rightarrow> bool" where
  "isFolderStep c = (case c of FoldersNamedQuery names \<Rightarrow> True | FolderSave n p \<Rightarrow> True | _ \<Rightarrow> False)"

definition isLookupQuery :: "platform_call \<Rightarrow> bool" where
  "isLookupQuery c = (case c of FolderPathQuery r ps \<Rightarrow> True | FileQuery n f \<Rightarrow> True | _ \<Rightarrow> False)"

definition ns9 :: netsuite where
  "ns9 = \<lparr>folders = [\<lparr>folder_id = 100, folder_name = ''app'', folder_parent = Some (- 15)\<rparr>],
          files = [], faults = [False, False, True], calls = []\<rparr>"

definition ns3 :: netsuite where
  "ns3 = \<lparr>folders = [\<lparr>folder_id = 100, folder_name = ''app'', folder_parent = Some (- 15)\<rparr>],
          files = [\<lparr>file_id = 7, file_name = ''lib.js'', file_folder = 100, file_contents = ''old''\<rparr>],
          faults = [], calls = []\<rparr>"

definition request3 :: upload_request where
  "request3 = \<lparr>path = Some ''/SuiteScripts/app/lib.js'', content = Some ''new'',
                encoding = None, folder = None, description = None\<rparr>"


definition edEnv :: editor where
  "edEnv = \<lparr>fileSystem = [(''/ws/.env'', ''NS_ROOT_PATH=/Root'')], envConfigCache = [],
            settings = [], numericSettings = [], outputChannel = [], uploadHistory = [], requests = []\<rparr>"

definition edPlain :: editor where
  "edPlain = \<lparr>fileSystem = [], envConfigCache = [],
            settings = [], numericSettings = [], outputChannel = [], uploadHistory = [], requests = []\<rparr>"

definition edCached :: editor where
  "edCached = \<lparr>fileSystem = [], envConfigCache = [(''/ws'', [(''NS_ROOT_PATH'', ''/Root'')])],
            settings = [], numericSettings = [], outputChannel = [], uploadHistory = [], requests = []\<rparr>"

definition nsEmpty :: netsuite where
  "nsEmpty = \<lparr>folders = [], files = [], faults = [], calls = []\<rparr>"

definition nodeExample :: node where
  "nodeExample =
     \<lparr>parseURL = (\<lambda>u. if startsWith u ''https://''
                        then Some \<lparr>hostname = takeWhile (\<lambda>c. c \<noteq> slash) (drop 8 u), port = [],
                                   pathname = dropWhile (\<lambda>c. c \<noteq> slash) (drop 8 u),
                                   search = []\<rparr>
                        else None),
       endpoint = restletEndpoint nsEmpty,
       oauthNonce = ''nonce'', oauthTimestamp = ''1700000000'',
       oauthSignature = (\<lambda>url method consumerKey consumerSecret tokenId tokenSecret. ''c2ln''),
       percentEncode = (\<lambda>s. s)\<rparr>"

definition edCredentials :: editor where
  "edCredentials =
     \<lparr>fileSystem = [], envConfigCache =
        [(''/ws'', [(''NS_RESTLET_URL'', ''https://host/restlet''), (''NS_ACCOUNT_ID'', ''123''),
                    (''NS_CONSUMER_KEY'', ''ck''), (''NS_CONSUMER_SECRET'', ''cs''),
                    (''NS_TOKEN_ID'', ''ti''), (''NS_TOKEN_SECRET'', ''ts'')])],
       settings = [], numericSettings = [], outputChannel = [], uploadHistory = [], requests = []\<rparr>"

definition edDollar :: editor where
  "edDollar =
     \<lparr>fileSystem = [], envConfigCache =
        [(''/ws'', [(''NS_RESTLET_URL'', ''https://host/restlet''), (''NS_ACCOUNT_ID'', ''a$&b''),
                    (''NS_CONSUMER_KEY'', ''ck''), (''NS_CONSUMER_SECRET'', ''cs''),
                    (''NS_TOKEN_ID'', ''ti''), (''NS_TOKEN_SECRET'', ''ts'')])],
       settings = [], numericSettings = [], outputChannel = [], uploadHistory = [], requests = []\<rparr>"

text \<open>
  The size in bytes of a string as UTF-8 text, the encoding in which the extension sends the
  content: a character below 128 takes one byte, a character from 128 on takes two.
\<close>

definition utf8Length :: "string \<Rightarrow> nat" where
  "utf8Length s = sum_list (map (\<lambda>c. if of_char c < (128::nat) then 1 else 2) s)"

definition bigText :: string where
  "bigText = replicate (maxFileSize + 1) (CHR ''a'')"

definition limitText :: string where
  "limitText = replicate maxFileSize (CHR ''a'')"

definition docExample :: document where
  "docExample = \<lparr>doc_fileName = ''/ws/src/a.js'', doc_workspaceFolder = Some ''/ws''\<rparr>"

definition edUpload :: "string \<Rightarrow> editor" where
  "edUpload text = edCredentials\<lparr>fileSystem := [(''/ws/dist/a.js'', text)]\<rparr>"

definition requestOf :: "string \<Rightarrow> upload_request" where
  "requestOf text = \<lparr>path = Some ''/SuiteScripts/a.js'', content = Some text,
                      encoding = Some ''utf8'', folder = None, description = None\<rparr>"

section \<open>Verified properties\<close>

subsection \<open>Platform calls and their failures\<close>

lemma advances_refl: "advances ns ns []"
  by (simp add: advances_def)

lemma advances_trans:
  "advances a b cs \<Longrightarrow> advances b c ds \<Longrightarrow> advances a c (cs @ ds)"
  by (simp add: advances_def add.commute)

lemma thrownCalls_advances:
  "advances ns ns' cs \<Longrightarrow> thrownCalls ns ns' = map fst (filter snd (zip cs (faults ns)))"
  by (simp add: advances_def thrownCalls_def)

lemma zip_one: "zip [c] bs = (case bs of [] \<Rightarrow> [] | b # r \<Rightarrow> [(c, b)])"
  by (cases bs) auto

lemma thrown_single:
  "map fst (filter snd (zip [c] (faults ns))) = (if nextThrows ns then [c] else [])"
  by (cases "faults ns") (auto simp: nextThrows_def)

lemma zip_take_same: "zip xs (take (length xs) ys) = zip xs ys"
proof (induction xs arbitrary: ys)
  case Nil
  show ?case by simp
next
  case (Cons x xs)
  show ?case by (cases ys) (simp_all add: Cons.IH)
qed

lemma thrown_append:
  "advances ns ns1 cs \<Longrightarrow>
   map fst (filter snd (zip (cs @ ds) (faults ns))) =
   map fst (filter snd (zip cs (faults ns))) @ map fst (filter snd (zip ds (faults ns1)))"
  by (simp add: advances_def zip_append1 zip_take_same)

lemma invoke_result:
  "invoke c ns = (b, ns') \<Longrightarrow>
     b = nextThrows ns \<and> advances ns ns' [c] \<and> folders ns' = folders ns \<and> files ns' = files ns"
  by (cases "faults ns") (auto simp: invoke_def nextThrows_def advances_def)

lemma runFolderPathQuery_result:
  "runFolderPathQuery ns root parts = (r, ns') \<Longrightarrow>
     advances ns ns' [FolderPathQuery root parts] \<and> folders ns' = folders ns \<and>
     files ns' = files ns \<and>
     r = (if nextThrows ns then Inl platformError else Inr (folderChain (folders ns) [root] parts))"
  by (auto simp: runFolderPathQuery_def split: prod.splits bool.splits dest: invoke_result)

lemma runFileQuery_result:
  "runFileQuery ns name fid = (r, ns') \<Longrightarrow>
     advances ns ns' [FileQuery name fid] \<and> folders ns' = folders ns \<and>
     files ns' = files ns \<and>
     r = (if nextThrows ns then Inl platformError
          else Inr (filter (\<lambda>f. file_name f = name \<and> file_folder f = fid) (files ns)))"
  by (auto simp: runFileQuery_def split: prod.splits bool.splits dest: invoke_result)

lemma runFoldersNamedQuery_result:
  "runFoldersNamedQuery ns names = (r, ns') \<Longrightarrow>
     advances ns ns' [FoldersNamedQuery names] \<and> folders ns' = folders ns \<and>
     files ns' = files ns \<and>
     r = (if nextThrows ns then Inl platformError
          else Inr (filter (\<lambda>f. folder_name f \<in> set names) (folders ns)))"
  by (auto simp: runFoldersNamedQuery_def split: prod.splits bool.splits dest: invoke_result)

lemma folderSave_result:
  "folderSave ns name parent = (r, ns') \<Longrightarrow>
     advances ns ns' [FolderSave name parent] \<and> files ns' = files ns \<and>
     isl r = nextThrows ns"
  by (auto simp: folderSave_def Let_def advances_def split: prod.splits bool.splits dest!: invoke_result)

lemma fileSave_result:
  "fileSave ns opts = (r, ns') \<Longrightarrow>
     advances ns ns' [FileSave opts] \<and> folders ns' = folders ns \<and>
     isl r = nextThrows ns"
  by (auto simp: fileSave_def Let_def advances_def split: prod.splits bool.splits option.splits name_conflict_resolution.splits dest!: invoke_result)

lemma findFolderByPath_result:
  assumes "findFolderByPath ns p = (r, ns')"
  shows "\<exists>cs. advances ns ns' cs \<and> (\<forall>c\<in>set cs. isLookupQuery c) \<and>
            folders ns' = folders ns \<and> files ns' = files ns \<and>
            (map fst (filter snd (zip cs (faults ns))) \<noteq> [] \<longrightarrow> r = None)"
proof (cases "p = [] \<or> skipSuiteScripts (folderParts p) = []")
  case True
  with assms have "ns' = ns" by (auto simp: findFolderByPath_def Let_def split: if_splits)
  then show ?thesis by (intro exI[of _ "[]"]) (simp add: advances_refl)
next
  case False
  obtain q ns1 where q: "runFolderPathQuery ns defaultRootFolder (skipSuiteScripts (folderParts p)) = (q, ns1)"
    by (cases "runFolderPathQuery ns defaultRootFolder (skipSuiteScripts (folderParts p))")
  note R = runFolderPathQuery_result[OF q]
  from assms False q have ns': "ns' = ns1"
    by (auto simp: findFolderByPath_def Let_def split: sum.splits list.splits if_splits)
  from assms False q R have "nextThrows ns \<Longrightarrow> r = None"
    by (auto simp: findFolderByPath_def Let_def split: sum.splits list.splits if_splits)
  with R ns' show ?thesis
    by (intro exI[of _ "[FolderPathQuery defaultRootFolder (skipSuiteScripts (folderParts p))]"])
       (auto simp: thrown_single isLookupQuery_def)
qed

lemma traverseFolders_result:
  "traverseFolders ns m cur parts = (r, ns') \<Longrightarrow>
     \<exists>cs. advances ns ns' cs \<and> (\<forall>c\<in>set cs. isFolderStep c) \<and> files ns' = files ns \<and>
          (isl r \<longleftrightarrow> map fst (filter snd (zip cs (faults ns))) \<noteq> [])"
proof (induction parts arbitrary: ns cur)
  case Nil
  then show ?case by (intro exI[of _ "[]"]) (auto simp: advances_refl)
next
  case (Cons q qs)
  let ?found = "(case m (Some cur) of None \<Rightarrow> None | Some names \<Rightarrow> names q)"
  show ?case
  proof (cases "\<exists>i. ?found = Some i \<and> i \<noteq> 0")
    case True
    then obtain i where i: "?found = Some i" "i \<noteq> 0" by blast
    with Cons.prems have "traverseFolders ns m i qs = (r, ns')" by simp
    from Cons.IH[OF this] show ?thesis .
  next
    case False
    obtain s ns1 where s: "folderSave ns q cur = (s, ns1)" by (cases "folderSave ns q cur")
    note S = folderSave_result[OF s]
    from False Cons.prems s have step:
      "(case s of Inl e \<Rightarrow> (Inl e, ns1) | Inr created \<Rightarrow> traverseFolders ns1 m created qs) = (r, ns')"
      by (auto split: option.splits if_splits)
    show ?thesis
    proof (cases s)
      case (Inl e)
      with step have "r = Inl e" "ns' = ns1" by auto
      with S Inl show ?thesis
        by (intro exI[of _ "[FolderSave q cur]"]) (auto simp: thrown_single isFolderStep_def)
    next
      case (Inr created)
      with step have "traverseFolders ns1 m created qs = (r, ns')" by simp
      from Cons.IH[OF this] obtain cs where cs: "advances ns1 ns' cs" "\<forall>c\<in>set cs. isFolderStep c"
        "files ns' = files ns1" "isl r \<longleftrightarrow> map fst (filter snd (zip cs (faults ns1))) \<noteq> []" by blast
      from S Inr have nt: "\<not> nextThrows ns" by auto
      have adv: "advances ns ns1 [FolderSave q cur]" using S by simp
      have "map fst (filter snd (zip ([FolderSave q cur] @ cs) (faults ns))) =
            map fst (filter snd (zip cs (faults ns1)))"
        using thrown_append[OF adv, of cs] nt by (simp only: thrown_single) simp
      with cs S advances_trans[OF adv cs(1)] show ?thesis
        by (intro exI[of _ "[FolderSave q cur] @ cs"]) (auto simp: isFolderStep_def)
    qed
  qed
qed

lemma thrownCalls_trans:
  assumes "advances a b cs" "advances b c ds"
  shows "thrownCalls a c = thrownCalls a b @ thrownCalls b c"
  using thrownCalls_advances[OF advances_trans[OF assms]] thrownCalls_advances[OF assms(1)]
    thrownCalls_advances[OF assms(2)] thrown_append[OF assms(1), of ds]
  by simp

lemma thrownCalls_subset: "advances a b cs \<Longrightarrow> set (thrownCalls a b) \<subseteq> set cs"
  by (auto simp: thrownCalls_advances dest: set_zip_leftD)

lemma thrownCalls_same: "thrownCalls ns ns = []"
  by (simp add: thrownCalls_def)

lemma lookup_not_folder_step: "isLookupQuery c \<Longrightarrow> \<not> isFolderStep c"
  by (cases c) (auto simp: isLookupQuery_def isFolderStep_def)

lemma findOrCreateFolderPath_result:
  assumes "findOrCreateFolderPath ns p = (r, ns')"
  shows "files ns' = files ns \<and> (\<exists>cs. advances ns ns' cs) \<and>
         ((\<exists>c\<in>set (thrownCalls ns ns'). isFolderStep c) \<longrightarrow> r = defaultRootFolder)"
proof (cases "p = [] \<or> skipSuiteScripts (folderParts p) = []")
  case True
  with assms have "ns' = ns"
    by (auto simp: findOrCreateFolderPath_def Let_def split: if_splits)
  then show ?thesis using advances_refl by (auto simp: thrownCalls_same)
next
  case False
  let ?parts = "skipSuiteScripts (folderParts p)"
  obtain e ns1 where e: "findFolderByPath ns (join ?parts) = (e, ns1)"
    by (cases "findFolderByPath ns (join ?parts)")
  from findFolderByPath_result[OF e] obtain cs1 where cs1: "advances ns ns1 cs1"
    "\<forall>c\<in>set cs1. isLookupQuery c" "files ns1 = files ns" by blast
  have no1: "\<not> (\<exists>c\<in>set (thrownCalls ns ns1). isFolderStep c)"
    using thrownCalls_subset[OF cs1(1)] cs1(2) lookup_not_folder_step by blast
  show ?thesis
  proof (cases "e \<noteq> None \<and> e \<noteq> Some 0")
    case True
    with assms False e have "ns' = ns1"
      by (auto simp: findOrCreateFolderPath_def Let_def split: if_splits)
    with no1 cs1 show ?thesis by auto
  next
    case nofolder: False
    obtain q ns2 where q: "runFoldersNamedQuery ns1 ?parts = (q, ns2)"
      by (cases "runFoldersNamedQuery ns1 ?parts")
    note Q = runFoldersNamedQuery_result[OF q]
    have adv2: "advances ns1 ns2 [FoldersNamedQuery ?parts]" using Q by simp
    show ?thesis
    proof (cases q)
      case (Inl err)
      with assms False e nofolder q have "r = defaultRootFolder" "ns' = ns2"
        by (auto simp: findOrCreateFolderPath_def Let_def split: if_splits)
      with Q cs1 advances_trans[OF cs1(1) adv2] show ?thesis by auto
    next
      case (Inr allFolders)
      obtain t ns3 where t: "traverseFolders ns2 (foldersByParent allFolders) defaultRootFolder ?parts = (t, ns3)"
        by (cases "traverseFolders ns2 (foldersByParent allFolders) defaultRootFolder ?parts")
      from traverseFolders_result[OF t] obtain cs3 where cs3: "advances ns2 ns3 cs3"
        "files ns3 = files ns2"
        "isl t \<longleftrightarrow> map fst (filter snd (zip cs3 (faults ns2))) \<noteq> []" by blast
      from assms False e nofolder q Inr t have res:
        "ns' = ns3" "r = (case t of Inl err \<Rightarrow> defaultRootFolder | Inr cur \<Rightarrow> cur)"
        by (auto simp: findOrCreateFolderPath_def Let_def split: if_splits sum.splits)
      have adv12: "advances ns ns2 (cs1 @ [FoldersNamedQuery ?parts])"
        by (rule advances_trans[OF cs1(1) adv2])
      have adv: "advances ns ns3 ((cs1 @ [FoldersNamedQuery ?parts]) @ cs3)"
        by (rule advances_trans[OF adv12 cs3(1)])
      have nt2: "thrownCalls ns1 ns2 = []"
        using Q Inr by (auto simp: thrownCalls_advances[OF adv2] thrown_single split: if_splits)
      have th: "thrownCalls ns ns3 = thrownCalls ns ns1 @ thrownCalls ns2 ns3"
        using thrownCalls_trans[OF adv12 cs3(1)] thrownCalls_trans[OF cs1(1) adv2] nt2 by simp
      show ?thesis
      proof (cases t)
        case (Inl err)
        with res Q cs1 cs3 adv show ?thesis by auto
      next
        case (Inr cur)
        with cs3(3) have "thrownCalls ns2 ns3 = []"
          by (simp add: thrownCalls_advances[OF cs3(1)])
        with th no1 have "\<not> (\<exists>c\<in>set (thrownCalls ns ns3). isFolderStep c)" by simp
        with res Q cs1 cs3 adv show ?thesis by auto
      qed
    qed
  qed
qed

lemma fileSave_plain:
  "\<not> nextThrows ns \<Longrightarrow> opt_conflictResolution opts = None \<Longrightarrow>
     fst (fileSave ns opts) = Inr (freshId ns) \<and>
     files (snd (fileSave ns opts)) =
       filter (\<lambda>f. \<not> (file_name f = opt_name opts \<and> file_folder f = opt_folder opts))
         (files ns) @
       [\<lparr>file_id = freshId ns, file_name = opt_name opts, file_folder = opt_folder opts,
         file_contents = opt_contents opts\<rparr>]"
  by (cases "faults ns")
     (auto simp: fileSave_def invoke_def nextThrows_def Let_def freshId_def)

text \<open>
  C9. When a platform call inside the \<^verbatim>\<open>try\<close> block of \<^verbatim>\<open>findOrCreateFolderPath\<close>
  throws (the query for the folders with the names of the path, or the save of a new
  folder record), the function returns the fixed root folder \<open>-15\<close>. The create branch
  of \<^verbatim>\<open>post\<close> then saves the new file directly under the root folder and, when the save
  itself does not throw, answers with success.
\<close>

theorem findOrCreateFolderPath_error_gives_root:
  assumes "c \<in> set (thrownCalls ns (snd (findOrCreateFolderPath ns p)))" and "isFolderStep c"
  shows "fst (findOrCreateFolderPath ns p) = defaultRootFolder \<and>
         (\<not> nextThrows (snd (findOrCreateFolderPath ns p)) \<longrightarrow>
            fst (createNewFile ns None p name ft contents descr enc filePath) =
              Success ''File created successfully''
                (freshId (snd (findOrCreateFolderPath ns p))) filePath ''create'' \<and>
            \<lparr>file_id = freshId (snd (findOrCreateFolderPath ns p)), file_name = name,
              file_folder = defaultRootFolder, file_contents = contents\<rparr>
              \<in> set (files (snd (createNewFile ns None p name ft contents descr enc filePath))))"
proof -
  obtain r ns1 where r: "findOrCreateFolderPath ns p = (r, ns1)"
    by (cases "findOrCreateFolderPath ns p")
  from findOrCreateFolderPath_result[OF r] assms r have root: "r = defaultRootFolder" by auto
  let ?opts = "\<lparr>opt_name = name, opt_fileType = ft, opt_folder = defaultRootFolder,
      opt_contents = contents, opt_description = descr,
      opt_encoding = (if enc = ''base64'' then BASE_64 else UTF_8),
      opt_conflictResolution = None\<rparr>"
  have cnf: "createNewFile ns None p name ft contents descr enc filePath =
      (case fileSave ns1 ?opts of
         (Inl e, ns2) \<Rightarrow> (errorResponse e, ns2)
       | (Inr savedFileId, ns2) \<Rightarrow>
           (Success ''File created successfully'' savedFileId filePath ''create'', ns2))"
    by (simp add: createNewFile_def r root)
  show ?thesis
  proof (intro conjI impI)
    show "fst (findOrCreateFolderPath ns p) = defaultRootFolder" by (simp add: r root)
  next
    assume "\<not> nextThrows (snd (findOrCreateFolderPath ns p))"
    then have nt: "\<not> nextThrows ns1" by (simp add: r)
    from fileSave_plain[OF nt, of ?opts]
    show "fst (createNewFile ns None p name ft contents descr enc filePath) =
              Success ''File created successfully''
                (freshId (snd (findOrCreateFolderPath ns p))) filePath ''create''"
      by (cases "fileSave ns1 ?opts") (simp add: cnf r)
  next
    assume "\<not> nextThrows (snd (findOrCreateFolderPath ns p))"
    then have nt: "\<not> nextThrows ns1" by (simp add: r)
    from fileSave_plain[OF nt, of ?opts]
    show "\<lparr>file_id = freshId (snd (findOrCreateFolderPath ns p)), file_name = name,
              file_folder = defaultRootFolder, file_contents = contents\<rparr>
              \<in> set (files (snd (createNewFile ns None p name ft contents descr enc filePath)))"
      by (cases "fileSave ns1 ?opts") (simp add: cnf r)
  qed
qed

theorem findOrCreateFolderPath_error_gives_root_witness:
  "FolderSave ''x'' (- 15) \<in> set (thrownCalls ns9 (snd (findOrCreateFolderPath ns9 ''SuiteScripts/x/y''))) \<and>
   isFolderStep (FolderSave ''x'' (- 15)) \<and>
   fst (findOrCreateFolderPath ns9 ''SuiteScripts/x/y'') = - 15 \<and>
   \<not> nextThrows (snd (findOrCreateFolderPath ns9 ''SuiteScripts/x/y'')) \<and>
   fst (createNewFile ns9 None ''SuiteScripts/x/y'' ''lib.js'' JAVASCRIPT ''new'' ''d'' ''utf8''
          ''/SuiteScripts/x/y/lib.js'') =
     Success ''File created successfully'' 101 ''/SuiteScripts/x/y/lib.js'' ''create'' \<and>
   \<lparr>file_id = 101, file_name = ''lib.js'', file_folder = - 15, file_contents = ''new''\<rparr>
     \<in> set (files (snd (createNewFile ns9 None ''SuiteScripts/x/y'' ''lib.js'' JAVASCRIPT ''new''
          ''d'' ''utf8'' ''/SuiteScripts/x/y/lib.js'')))"
proof -
  have h1: "FolderSave ''x'' (- 15) \<in> set (thrownCalls ns9 (snd (findOrCreateFolderPath ns9 ''SuiteScripts/x/y'')))"
    by code_simp
  have h2: "isFolderStep (FolderSave ''x'' (- 15))" by (simp add: isFolderStep_def)
  have h3: "\<not> nextThrows (snd (findOrCreateFolderPath ns9 ''SuiteScripts/x/y''))" by code_simp
  have h4: "freshId (snd (findOrCreateFolderPath ns9 ''SuiteScripts/x/y'')) = 101" by code_simp
  from findOrCreateFolderPath_error_gives_root[OF h1 h2, of "''lib.js''" JAVASCRIPT "''new''" "''d''" "''utf8''" "''/SuiteScripts/x/y/lib.js''"]
  show ?thesis using h1 h2 h3 h4 by (simp add: defaultRootFolder_def)
qed

subsection \<open>Path segments\<close>

lemma split_not_Nil: "split sep s \<noteq> []"
  by (induction s) (auto split: list.splits)

lemma split_prefix: "sep \<notin> set seg \<Longrightarrow> split sep (seg @ sep # t) = seg # split sep t"
  by (induction seg) (auto split: list.splits)

lemma split_snoc_sep: "split sep (s @ [sep]) = split sep s @ [[]]"
  by (induction s) (auto split: list.splits simp: split_not_Nil)

lemma split_Cons_sep: "split sep (sep # cs) = [] # split sep cs"
  by simp

lemma split_Cons_other:
  "c \<noteq> sep \<Longrightarrow> split sep (c # cs) = (c # hd (split sep cs)) # tl (split sep cs)"
  using split_not_Nil[of sep cs] by (simp split: list.splits)

lemma split_hd_tl: "split sep s = hd (split sep s) # tl (split sep s)"
  using split_not_Nil[of sep s] by simp

lemma split_collapse_hd_tl:
  "hd (split slash (collapseSlashes s)) = hd (split slash s) \<and>
   filter (\<lambda>q. q \<noteq> []) (tl (split slash (collapseSlashes s))) =
   filter (\<lambda>q. q \<noteq> []) (tl (split slash s))"
proof (induction s rule: collapseSlashes.induct)
  case (1 c d cs)
  show ?case
  proof (cases "c = slash")
    case True
    note c = True
    show ?thesis
    proof (cases "d = slash")
      case True
      with c 1 show ?thesis by (simp del: split.simps add: split_Cons_sep)
    next
      case False
      have "filter (\<lambda>q. q \<noteq> []) (split slash (collapseSlashes (d # cs))) =
            filter (\<lambda>q. q \<noteq> []) (split slash (d # cs))"
        using 1(2) c False
        by (subst split_hd_tl[of slash "collapseSlashes (d # cs)"], subst split_hd_tl[of slash "d # cs"])
           (simp del: split.simps collapseSlashes.simps)
      with c False show ?thesis by (simp del: split.simps add: split_Cons_sep)
    qed
  next
    case False
    with 1 show ?thesis by (simp del: split.simps add: split_Cons_other)
  qed
qed simp_all

lemma filter_split_collapse:
  "filter (\<lambda>q. q \<noteq> []) (split slash (collapseSlashes s)) = filter (\<lambda>q. q \<noteq> []) (split slash s)"
  using split_collapse_hd_tl[of s]
  by (subst split_hd_tl[of slash "collapseSlashes s"], subst split_hd_tl[of slash s])
     (simp del: split.simps)

lemma filter_split_dropWhile:
  "filter (\<lambda>q. q \<noteq> []) (split slash (dropWhile (\<lambda>c. c = slash) s)) =
   filter (\<lambda>q. q \<noteq> []) (split slash s)"
  by (induction s) (auto split: list.splits)

lemma filter_split_dropWhile_rev:
  "filter (\<lambda>q. q \<noteq> []) (split slash (rev (dropWhile (\<lambda>c. c = slash) (rev s)))) =
   filter (\<lambda>q. q \<noteq> []) (split slash s)"
proof (induction s rule: rev_induct)
  case Nil
  show ?case by simp
next
  case (snoc x xs)
  show ?case
  proof (cases "x = slash")
    case True
    then show ?thesis using snoc by (simp add: split_snoc_sep)
  next
    case False
    then show ?thesis by simp
  qed
qed

lemma filter_nonblank:
  "filter (\<lambda>q. q \<noteq> [] \<and> trim q \<noteq> []) xs = filter (\<lambda>q. trim q \<noteq> []) (filter (\<lambda>q. q \<noteq> []) xs)"
  by (induction xs) auto

lemma folderParts_plain:
  "folderParts p = filter (\<lambda>q. q \<noteq> [] \<and> trim q \<noteq> []) (split slash (replaceBackslashes p))"
  unfolding folderParts_def stripSlashes_def
  by (simp only: filter_nonblank filter_split_dropWhile_rev filter_split_dropWhile filter_split_collapse)

lemma lowerChar_space: "isSpace c \<Longrightarrow> lowerChar c = c"
  unfolding isSpace_def
  by (elim disjE | simp add: lowerChar_def upperLetters_def lowerLetters_def)+

lemma lowerChar_slash: "lowerChar slash = slash" "lowerChar backslash = backslash"
  by (simp_all add: lowerChar_def upperLetters_def lowerLetters_def slash_def backslash_def)

lemma suitescripts_chars:
  assumes "toLowerCase seg = ''suitescripts''"
  shows "slash \<notin> set seg" "backslash \<notin> set seg" "seg \<noteq> []" "trim seg \<noteq> []"
proof -
  have low: "\<And>c. c \<in> set seg \<Longrightarrow> lowerChar c \<in> set ''suitescripts''"
    using assms unfolding toLowerCase_def by (metis imageI set_map)
  show "slash \<notin> set seg"
  proof
    assume "slash \<in> set seg"
    from low[OF this] show False by (simp add: lowerChar_slash) (simp add: slash_def)
  qed
  show "backslash \<notin> set seg"
  proof
    assume "backslash \<in> set seg"
    from low[OF this] show False by (simp add: lowerChar_slash) (simp add: backslash_def)
  qed
  show ne: "seg \<noteq> []" using assms by (auto simp: toLowerCase_def)
  have nospace: "\<And>c. c \<in> set seg \<Longrightarrow> \<not> isSpace c"
  proof
    fix c assume c: "c \<in> set seg" "isSpace c"
    from low[OF c(1)] lowerChar_space[OF c(2)] have "c \<in> set ''suitescripts''" by simp
    with c(2) show False by (auto simp: isSpace_def)
  qed
  have "dropWhile isSpace seg = seg" using ne nospace by (cases seg) auto
  moreover have "dropWhile isSpace (rev seg) = rev seg"
    using ne nospace by (simp add: dropWhile_eq_self_iff hd_rev)
  ultimately show "trim seg \<noteq> []" using ne by (simp add: trim_def)
qed

lemma folderParts_cons:
  assumes "toLowerCase seg = ''suitescripts''"
  shows "folderParts (seg @ slash # rest) = seg # folderParts rest"
proof -
  note S = suitescripts_chars[OF assms]
  have "replaceBackslashes (seg @ slash # rest) = seg @ slash # replaceBackslashes rest"
    using S(2) by (auto simp: replaceBackslashes_def slash_def backslash_def intro: map_idI)
  then show ?thesis using S by (simp add: folderParts_plain split_prefix)
qed

lemma folderParts_single:
  assumes "toLowerCase seg = ''suitescripts''"
  shows "folderParts seg = [seg]"
proof -
  note S = suitescripts_chars[OF assms]
  have r: "replaceBackslashes seg = seg" using S(2) by (auto simp: replaceBackslashes_def intro: map_idI)
  have "split slash seg = [seg]" using S(1) by (induction seg) (auto)
  then show ?thesis using S by (simp add: folderParts_plain r)
qed

subsection \<open>The watch root segment\<close>

lemma findFolderByPath_parts:
  assumes "p \<noteq> []" "skipSuiteScripts (folderParts p) = parts" "parts \<noteq> []"
  shows "fst (findFolderByPath ns p) =
           (if nextThrows ns then None
            else (case folderChain (folders ns) [defaultRootFolder] parts of
                    [] \<Rightarrow> None
                  | r # rs \<Rightarrow> if r \<noteq> 0 then Some r else None))"
proof -
  obtain q ns1 where q: "runFolderPathQuery ns defaultRootFolder parts = (q, ns1)"
    by (cases "runFolderPathQuery ns defaultRootFolder parts")
  from runFolderPathQuery_result[OF q] assms q show ?thesis
    by (auto simp: findFolderByPath_def Let_def split: list.splits)
qed

text \<open>
  C3. A folder path whose first segment is the name of the watch root (\<^verbatim>\<open>SuiteScripts\<close>,
  compared case-insensitively) is looked up without that segment: when nothing follows it,
  the fixed root folder id is returned without any query; otherwise the remaining segments
  are resolved as a chain of folders that starts at the fixed root folder id. No folder
  named like the first segment is looked for.
\<close>

theorem watch_root_segment_skipped:
  assumes "toLowerCase seg = ''suitescripts''"
  shows "findFolderByPath ns seg = (Some defaultRootFolder, ns) \<and>
         (folderParts rest = [] \<longrightarrow>
            findFolderByPath ns (seg @ slash # rest) = (Some defaultRootFolder, ns)) \<and>
         (folderParts rest \<noteq> [] \<longrightarrow>
            fst (findFolderByPath ns (seg @ slash # rest)) =
              (if nextThrows ns then None
               else (case folderChain (folders ns) [defaultRootFolder] (folderParts rest) of
                       [] \<Rightarrow> None
                     | r # rs \<Rightarrow> if r \<noteq> 0 then Some r else None)))"
proof (intro conjI impI)
  note S = suitescripts_chars[OF assms]
  show "findFolderByPath ns seg = (Some defaultRootFolder, ns)"
    using assms S(3)
    by (simp add: findFolderByPath_def folderParts_single[OF assms] skipSuiteScripts_def)
next
  assume "folderParts rest = []"
  then show "findFolderByPath ns (seg @ slash # rest) = (Some defaultRootFolder, ns)"
    using assms
    by (simp add: findFolderByPath_def folderParts_cons[OF assms] skipSuiteScripts_def)
next
  assume ne: "folderParts rest \<noteq> []"
  have "skipSuiteScripts (folderParts (seg @ slash # rest)) = folderParts rest"
    using assms by (simp add: folderParts_cons[OF assms] skipSuiteScripts_def)
  from findFolderByPath_parts[OF _ this ne, of ns]
  show "fst (findFolderByPath ns (seg @ slash # rest)) =
              (if nextThrows ns then None
               else (case folderChain (folders ns) [defaultRootFolder] (folderParts rest) of
                       [] \<Rightarrow> None
                     | r # rs \<Rightarrow> if r \<noteq> 0 then Some r else None))"
    by simp
qed

theorem watch_root_segment_skipped_witness:
  "toLowerCase ''SuiteScripts'' = ''suitescripts'' \<and>
   folderParts ''app'' \<noteq> [] \<and>
   map folder_name (folders ns3) = [''app''] \<and>
   \<not> nextThrows ns3 \<and>
   findFolderByPath ns3 ''SuiteScripts'' = (Some (- 15), ns3) \<and>
   fst (findFolderByPath ns3 (''SuiteScripts'' @ slash # ''app'')) = Some 100"
proof -
  have h: "toLowerCase ''SuiteScripts'' = ''suitescripts''" by code_simp
  have p: "folderParts ''app'' = [''app'']" by code_simp
  have c: "folderChain (folders ns3) [defaultRootFolder] [''app''] = [100]" by code_simp
  have n: "\<not> nextThrows ns3" by code_simp
  have m: "map folder_name (folders ns3) = [''app'']" by code_simp
  from watch_root_segment_skipped[OF h, of ns3 "''app''"] show ?thesis
    using h p c n m by (simp add: defaultRootFolder_def)
qed

subsection \<open>Update and create in the POST handler\<close>

lemma find_filter_Cons: "filter P xs = row # rest \<Longrightarrow> find P xs = Some row"
  by (induction xs) (auto split: if_splits)

lemma filter_Cons_mem: "filter P xs = row # rest \<Longrightarrow> row \<in> set xs \<and> P row"
proof -
  assume a: "filter P xs = row # rest"
  have "row \<in> set (filter P xs)" by (simp add: a)
  then show ?thesis by simp
qed

lemma findFileByFullPath_result:
  assumes "findFileByFullPath ns fp p name = (r, ns')"
  shows "(\<exists>cs. advances ns ns' cs \<and> (\<forall>c\<in>set cs. isLookupQuery c)) \<and>
         folders ns' = folders ns \<and> files ns' = files ns \<and>
         (thrownCalls ns ns' \<noteq> [] \<longrightarrow> r = None) \<and>
         (\<forall>ex. r = Some ex \<longrightarrow>
            (\<exists>row rest. filter (\<lambda>f. file_name f = name \<and> file_folder f = ex_folderId ex)
                           (files ns) = row # rest \<and>
                        ex_id ex = file_id row \<and> ex_name ex = file_name row)) \<and>
         (\<forall>fid. fst (findFolderByPath ns p) = Some fid \<longrightarrow>
            \<not> (\<exists>f\<in>set (files ns). file_name f = name \<and> file_folder f = fid) \<longrightarrow> r = None)"
proof -
  obtain e ns1 where e: "findFolderByPath ns p = (e, ns1)" by (cases "findFolderByPath ns p")
  from findFolderByPath_result[OF e] obtain cs1 where cs1: "advances ns ns1 cs1"
    "\<forall>c\<in>set cs1. isLookupQuery c" "folders ns1 = folders ns" "files ns1 = files ns"
    "map fst (filter snd (zip cs1 (faults ns))) \<noteq> [] \<longrightarrow> e = None" by blast
  have t1: "thrownCalls ns ns1 \<noteq> [] \<Longrightarrow> e = None"
    using cs1(5) by (simp add: thrownCalls_advances[OF cs1(1)])
  show ?thesis
  proof (cases "e = None \<or> e = Some 0")
    case True
    with assms e have "r = None" "ns' = ns1"
      by (auto simp: findFileByFullPath_def)
    with cs1 show ?thesis by auto
  next
    case False
    then obtain fid where fid: "e = Some fid" "fid \<noteq> 0" by auto
    obtain q ns2 where q: "runFileQuery ns1 name fid = (q, ns2)"
      by (cases "runFileQuery ns1 name fid")
    note Q = runFileQuery_result[OF q]
    have adv2: "advances ns1 ns2 [FileQuery name fid]" using Q by simp
    from assms e fid q have res: "ns' = ns2"
      "r = (case q of Inl err \<Rightarrow> None
            | Inr results \<Rightarrow> (case results of [] \<Rightarrow> None
                | row # rs \<Rightarrow> Some \<lparr>ex_id = file_id row, ex_name = file_name row, ex_folderId = fid\<rparr>))"
      by (auto simp: findFileByFullPath_def split: sum.splits list.splits)
    have th: "thrownCalls ns ns2 = thrownCalls ns1 ns2"
      using thrownCalls_trans[OF cs1(1) adv2] t1 fid by auto
    have th2: "thrownCalls ns1 ns2 = (if nextThrows ns1 then [FileQuery name fid] else [])"
      by (simp add: thrownCalls_advances[OF adv2] thrown_single)
    have c1: "\<exists>cs. advances ns ns' cs \<and> (\<forall>c\<in>set cs. isLookupQuery c)"
      using advances_trans[OF cs1(1) adv2] cs1(2) res(1)
      by (intro exI[of _ "cs1 @ [FileQuery name fid]"]) (auto simp: isLookupQuery_def)
    have c4: "thrownCalls ns ns' \<noteq> [] \<longrightarrow> r = None"
      using th th2 Q res by (auto split: if_splits)
    have c5: "\<forall>ex. r = Some ex \<longrightarrow>
            (\<exists>row rest. filter (\<lambda>f. file_name f = name \<and> file_folder f = ex_folderId ex)
                           (files ns) = row # rest \<and>
                        ex_id ex = file_id row \<and> ex_name ex = file_name row)"
      using Q res cs1(4) by (auto split: sum.splits list.splits if_splits)
    have c6: "\<forall>fid'. fst (findFolderByPath ns p) = Some fid' \<longrightarrow>
            \<not> (\<exists>f\<in>set (files ns). file_name f = name \<and> file_folder f = fid') \<longrightarrow> r = None"
    proof (intro allI impI)
      fix fid' assume a: "fst (findFolderByPath ns p) = Some fid'"
        "\<not> (\<exists>f\<in>set (files ns). file_name f = name \<and> file_folder f = fid')"
      from a(1) e fid have "fid' = fid" by simp
      with a(2) have "filter (\<lambda>f. file_name f = name \<and> file_folder f = fid) (files ns) = []"
        by (auto simp: filter_empty_conv)
      with Q res cs1(4) show "r = None" by (auto split: sum.splits list.splits if_splits)
    qed
    from c1 c4 c5 c6 Q cs1 res show ?thesis by simp
  qed
qed

lemma fileSave_throws:
  "nextThrows ns \<Longrightarrow> fst (fileSave ns opts) = Inl platformError \<and>
     files (snd (fileSave ns opts)) = files ns"
  by (cases "faults ns") (auto simp: fileSave_def invoke_def nextThrows_def)

lemma map_file_id_update:
  "map file_id (map (\<lambda>f. if file_id f = i then f\<lparr>file_contents := c\<rparr> else f) xs) = map file_id xs"
  by (induction xs) auto

lemma fileSave_overwrite:
  assumes "\<not> nextThrows ns" "opt_conflictResolution opts = Some OVERWRITE"
    "filter (\<lambda>f. file_name f = opt_name opts \<and> file_folder f = opt_folder opts) (files ns) = row # rest"
  shows "fst (fileSave ns opts) = Inr (file_id row) \<and>
         map file_id (files (snd (fileSave ns opts))) = map file_id (files ns)"
  using assms(1,2) find_filter_Cons[OF assms(3)]
  by (cases "faults ns")
     (auto simp: fileSave_def invoke_def nextThrows_def map_file_id_update)

lemma post_valid:
  assumes "validateRequest context = Valid" "path context = Some rawPath"
    "content context = Some contents"
  shows "post ns context =
     (case findFileByFullPath ns (sanitizePath rawPath)
             (folderPath (parseFilePath (sanitizePath rawPath)))
             (fileName (parseFilePath (sanitizePath rawPath))) of
        (Some existingFile, ns1) \<Rightarrow>
          updateExistingFile ns1 existingFile (fileName (parseFilePath (sanitizePath rawPath)))
            (getFileType (fileName (parseFilePath (sanitizePath rawPath)))) contents
            (orElse (description context) ''Uploaded via Auto-Upload'')
            (orElse (encoding context) ''utf8'') (sanitizePath rawPath)
      | (None, ns1) \<Rightarrow>
          createNewFile ns1 (folder context) (folderPath (parseFilePath (sanitizePath rawPath)))
            (fileName (parseFilePath (sanitizePath rawPath)))
            (getFileType (fileName (parseFilePath (sanitizePath rawPath)))) contents
            (orElse (description context) ''Uploaded via Auto-Upload'')
            (orElse (encoding context) ''utf8'') (sanitizePath rawPath))"
  using assms by (simp add: post_def Let_def allowedExtensions_def)

text \<open>
  C1. Identity preservation. When the path of a valid POST request resolves, through
  \<^verbatim>\<open>findFileByFullPath\<close>, to an existing file with id \<open>ex_id ex\<close>, the handler takes the
  update branch: its one further platform call saves a file object with the same name into
  the folder of the existing file with \<^verbatim>\<open>conflictResolution: OVERWRITE\<close>. Unless that
  save throws, the response is a success with action \<^verbatim>\<open>update\<close> and the id of the
  existing file, and the cabinet holds the same file identifiers as before.
\<close>

theorem upsert_preserves_identity:
  assumes "validateRequest context = Valid"
    and "path context = Some rawPath" and "content context = Some contents"
    and "filePath = sanitizePath rawPath" and "pp = parseFilePath filePath"
    and "findFileByFullPath ns filePath (folderPath pp) (fileName pp) = (Some ex, ns1)"
  shows "post ns context =
           updateExistingFile ns1 ex (fileName pp) (getFileType (fileName pp)) contents
             (orElse (description context) ''Uploaded via Auto-Upload'')
             (orElse (encoding context) ''utf8'') filePath \<and>
         calls (snd (post ns context)) = calls ns1 @
           [FileSave \<lparr>opt_name = fileName pp, opt_fileType = getFileType (fileName pp),
              opt_folder = ex_folderId ex, opt_contents = contents,
              opt_description = orElse (description context) ''Uploaded via Auto-Upload'',
              opt_encoding =
                (if orElse (encoding context) ''utf8'' = ''base64'' then BASE_64 else UTF_8),
              opt_conflictResolution = Some OVERWRITE\<rparr>] \<and>
         (\<exists>row\<in>set (files ns). file_id row = ex_id ex \<and> file_name row = fileName pp \<and>
            file_folder row = ex_folderId ex) \<and>
         fst (post ns context) =
           (if nextThrows ns1 then errorResponse platformError
            else Success ''File updated successfully'' (ex_id ex) filePath ''update'') \<and>
         (\<not> nextThrows ns1 \<longrightarrow>
            map file_id (files (snd (post ns context))) = map file_id (files ns))"
proof -
  let ?opts = "\<lparr>opt_name = fileName pp, opt_fileType = getFileType (fileName pp),
              opt_folder = ex_folderId ex, opt_contents = contents,
              opt_description = orElse (description context) ''Uploaded via Auto-Upload'',
              opt_encoding =
                (if orElse (encoding context) ''utf8'' = ''base64'' then BASE_64 else UTF_8),
              opt_conflictResolution = Some OVERWRITE\<rparr>"
  have p: "post ns context =
           updateExistingFile ns1 ex (fileName pp) (getFileType (fileName pp)) contents
             (orElse (description context) ''Uploaded via Auto-Upload'')
             (orElse (encoding context) ''utf8'') filePath"
    using post_valid[OF assms(1-3), of ns] assms(4-6) by simp
  have u: "updateExistingFile ns1 ex (fileName pp) (getFileType (fileName pp)) contents
             (orElse (description context) ''Uploaded via Auto-Upload'')
             (orElse (encoding context) ''utf8'') filePath =
           (case fileSave ns1 ?opts of
              (Inl e, ns') \<Rightarrow> (errorResponse e, ns')
            | (Inr savedFileId, ns') \<Rightarrow>
                (Success ''File updated successfully'' savedFileId filePath ''update'', ns'))"
    by (simp add: updateExistingFile_def)
  note F = findFileByFullPath_result[OF assms(6)]
  from F obtain row rest where row:
    "filter (\<lambda>f. file_name f = fileName pp \<and> file_folder f = ex_folderId ex) (files ns) = row # rest"
    "ex_id ex = file_id row" by blast
  have files1: "files ns1 = files ns" using F by simp
  obtain s ns2 where s: "fileSave ns1 ?opts = (s, ns2)" by (cases "fileSave ns1 ?opts")
  note S = fileSave_result[OF s]
  have calls: "calls ns2 = calls ns1 @ [FileSave ?opts]" using S by (simp add: advances_def)
  have res: "s = (if nextThrows ns1 then Inl platformError else Inr (ex_id ex))"
    using fileSave_throws[of ns1 ?opts] fileSave_overwrite[of ns1 ?opts row rest] row files1 s
    by (cases "nextThrows ns1") auto
  have ids: "\<not> nextThrows ns1 \<Longrightarrow> map file_id (files ns2) = map file_id (files ns)"
    using fileSave_overwrite[of ns1 ?opts row rest] row files1 s by auto
  have mem: "\<exists>row\<in>set (files ns). file_id row = ex_id ex \<and> file_name row = fileName pp \<and>
            file_folder row = ex_folderId ex"
    using filter_Cons_mem[OF row(1)] row(2) by auto
  show ?thesis
    using p mem calls res ids by (simp add: u s)
qed

theorem upsert_preserves_identity_witness:
  "validateRequest request3 = Valid \<and>
   findFileByFullPath ns3 ''/SuiteScripts/app/lib.js'' ''SuiteScripts/app'' ''lib.js'' =
     (Some \<lparr>ex_id = 7, ex_name = ''lib.js'', ex_folderId = 100\<rparr>,
      ns3\<lparr>calls := [FolderPathQuery (- 15) [''app''], FileQuery ''lib.js'' 100]\<rparr>) \<and>
   fst (post ns3 request3) =
     Success ''File updated successfully'' 7 ''/SuiteScripts/app/lib.js'' ''update'' \<and>
   map file_id (files (snd (post ns3 request3))) = [7]"
proof -
  have v: "validateRequest request3 = Valid"
    by (simp add: validateRequest_def request3_def maxFileSize_def includesStr_def startsWith_def)
  have p: "path request3 = Some ''/SuiteScripts/app/lib.js''" "content request3 = Some ''new''"
    by (simp_all add: request3_def)
  have f: "''/SuiteScripts/app/lib.js'' = sanitizePath ''/SuiteScripts/app/lib.js''" by code_simp
  have pp: "\<lparr>fileName = ''lib.js'', folderPath = ''SuiteScripts/app'',
             fullPath = ''SuiteScripts/app/lib.js''\<rparr> = parseFilePath ''/SuiteScripts/app/lib.js''"
    by code_simp
  have l: "findFileByFullPath ns3 ''/SuiteScripts/app/lib.js''
             (folderPath \<lparr>fileName = ''lib.js'', folderPath = ''SuiteScripts/app'',
                fullPath = ''SuiteScripts/app/lib.js''\<rparr>)
             (fileName \<lparr>fileName = ''lib.js'', folderPath = ''SuiteScripts/app'',
                fullPath = ''SuiteScripts/app/lib.js''\<rparr>) =
     (Some \<lparr>ex_id = 7, ex_name = ''lib.js'', ex_folderId = 100\<rparr>,
      ns3\<lparr>calls := [FolderPathQuery (- 15) [''app''], FileQuery ''lib.js'' 100]\<rparr>)"
    by code_simp
  have n: "\<not> nextThrows (ns3\<lparr>calls := [FolderPathQuery (- 15) [''app''], FileQuery ''lib.js'' 100]\<rparr>)"
    by code_simp
  have m: "map file_id (files ns3) = [7]" by code_simp
  from upsert_preserves_identity[OF v p f pp l, THEN conjunct2, THEN conjunct2, THEN conjunct2]
  show ?thesis
    using v l n m by simp
qed











subsection \<open>Configuration values\<close>

lemma loadEnvFile_keeps:
  "loadEnvFile w name (env, ed) = (env', ed') \<Longrightarrow>
     settings ed' = settings ed \<and> fileSystem ed' = fileSystem ed \<and>
     envConfigCache ed' = envConfigCache ed \<and> requests ed' = requests ed \<and>
     uploadHistory ed' = uploadHistory ed"
  by (auto simp: loadEnvFile_def log_def split: option.splits)

lemma fold_loadEnvFile_keeps:
  "fold (loadEnvFile w) names (env, ed) = (env', ed') \<Longrightarrow>
     settings ed' = settings ed \<and> fileSystem ed' = fileSystem ed \<and>
     envConfigCache ed' = envConfigCache ed \<and> requests ed' = requests ed \<and>
     uploadHistory ed' = uploadHistory ed"
proof (induction names arbitrary: env ed)
  case Nil
  then show ?case by simp
next
  case (Cons n ns)
  obtain e1 d1 where s: "loadEnvFile w n (env, ed) = (e1, d1)"
    by (cases "loadEnvFile w n (env, ed)")
  from Cons.prems s have "fold (loadEnvFile w) ns (e1, d1) = (env', ed')" by simp
  from Cons.IH[OF this] loadEnvFile_keeps[OF s] show ?case by simp
qed

lemma loadEnvConfig_keeps:
  assumes "loadEnvConfig ws ed = (env, ed')"
  shows "settings ed' = settings ed" "fileSystem ed' = fileSystem ed"
    "requests ed' = requests ed" "uploadHistory ed' = uploadHistory ed"
proof -
  have "settings ed' = settings ed \<and> fileSystem ed' = fileSystem ed \<and>
        requests ed' = requests ed \<and> uploadHistory ed' = uploadHistory ed"
  proof (cases ws)
    case None
    with assms show ?thesis by (simp add: loadEnvConfig_def)
  next
    case (Some w)
    show ?thesis
    proof (cases "map_of (envConfigCache ed) w")
      case (Some cached)
      with assms \<open>ws = Some w\<close> show ?thesis by (simp add: loadEnvConfig_def)
    next
      case None
      obtain e1 d1 where f: "fold (loadEnvFile w) envFiles ([], ed) = (e1, d1)"
        by (cases "fold (loadEnvFile w) envFiles ([], ed)")
      from assms \<open>ws = Some w\<close> None f
      have "ed' = d1\<lparr>envConfigCache := (w, e1) # envConfigCache d1\<rparr>"
        by (auto simp: loadEnvConfig_def)
      with fold_loadEnvFile_keeps[OF f] show ?thesis by simp
    qed
  qed
  then show "settings ed' = settings ed" "fileSystem ed' = fileSystem ed"
    "requests ed' = requests ed" "uploadHistory ed' = uploadHistory ed" by simp_all
qed

lemma loadEnvConfig_again:
  assumes "loadEnvConfig ws ed = (env, ed')"
  shows "loadEnvConfig ws ed' = (env, ed')"
proof (cases ws)
  case None
  with assms show ?thesis by (simp add: loadEnvConfig_def)
next
  case (Some w)
  show ?thesis
  proof (cases "map_of (envConfigCache ed) w")
    case (Some cached)
    with assms \<open>ws = Some w\<close> show ?thesis by (auto simp: loadEnvConfig_def)
  next
    case None
    obtain e1 d1 where f: "fold (loadEnvFile w) envFiles ([], ed) = (e1, d1)"
      by (cases "fold (loadEnvFile w) envFiles ([], ed)")
    from assms \<open>ws = Some w\<close> None f
    have "ed' = d1\<lparr>envConfigCache := (w, e1) # envConfigCache d1\<rparr>" "env = e1"
      by (auto simp: loadEnvConfig_def)
    then show ?thesis using \<open>ws = Some w\<close> by (simp add: loadEnvConfig_def)
  qed
qed

lemma getCredential_eq:
  assumes "loadEnvConfig ws ed = (env, ed')"
  shows "getCredential key ws ed = (credentialValue env (settings ed) key, ed')"
    and "getCredential key ws ed' = (credentialValue env (settings ed) key, ed')"
  using assms loadEnvConfig_again[OF assms] loadEnvConfig_keeps(1)[OF assms]
  by (simp_all add: getCredential_def)

subsection \<open>The logical remote path\<close>

lemma collapseSlashes_head: "\<exists>t. collapseSlashes (d # cs) = d # t"
proof (induction cs arbitrary: d)
  case Nil
  show ?case by simp
next
  case (Cons c cs)
  from Cons[of c] show ?case by auto
qed

lemma collapseSlashes_no_double: "\<not> sublist [slash, slash] (collapseSlashes s)"
proof (induction s rule: collapseSlashes.induct)
  case (1 c d cs)
  obtain t where t: "collapseSlashes (d # cs) = d # t" using collapseSlashes_head by blast
  show ?case
  proof (cases "c = slash \<and> d = slash")
    case True
    with 1 show ?thesis by simp
  next
    case False
    with 1 have ih: "\<not> sublist [slash, slash] (d # t)" by (simp add: t del: collapseSlashes.simps)
    have "collapseSlashes (c # d # cs) = c # d # t" using False t by auto
    moreover have "\<not> prefix [slash, slash] (c # d # t)" using False by auto
    ultimately show ?thesis using ih by (simp add: sublist_Cons_right del: collapseSlashes.simps)
  qed
qed (simp_all add: sublist_Cons_right slash_def)

lemma collapsed_shape:
  "startsWith (collapseSlashes (slash # x)) ''/'' \<and>
   \<not> startsWith (collapseSlashes (slash # x)) ''//'' \<and>
   \<not> sublist ''//'' (collapseSlashes (slash # x))"
proof -
  obtain t where t: "collapseSlashes (slash # x) = slash # t" using collapseSlashes_head by blast
  have nd: "\<not> sublist ''//'' (collapseSlashes (slash # x))"
    using collapseSlashes_no_double[of "slash # x"] by (simp add: slash_def)
  have "\<not> startsWith (collapseSlashes (slash # x)) ''//''"
  proof
    assume "startsWith (collapseSlashes (slash # x)) ''//''"
    then have "prefix ''//'' (collapseSlashes (slash # x))"
      by (metis startsWith_def take_is_prefix)
    then show False using nd by (simp add: prefix_imp_sublist)
  qed
  then show ?thesis using nd t by (simp add: startsWith_def slash_def)
qed

lemma ensure_slash: "\<exists>x. ensureLeadingSlash p = slash # x"
  by (cases p) (auto simp: ensureLeadingSlash_def startsWith_def slash_def)

lemma calculateNetSuitePath_collapsed:
  "\<exists>x. fst (calculateNetSuitePath rel ws ed) = collapseSlashes (slash # x)"
proof -
  obtain env ed' where l: "loadEnvConfig (Some ws) ed = (env, ed')"
    by (cases "loadEnvConfig (Some ws) ed")
  have e: "\<And>p. \<exists>x. collapseSlashes (ensureLeadingSlash p) = collapseSlashes (slash # x)"
    using ensure_slash by metis
  have s: "\<And>p. \<exists>x. collapseSlashes (CHR ''/'' # p) = collapseSlashes (slash # x)"
    by (auto simp: slash_def)
  show ?thesis
    using e s
    by (simp add: calculateNetSuitePath_def getCredential_eq[OF l] Let_def split: option.splits)
qed

text \<open>
  C5 (as amended). For every relative path and every state of the configuration, the
  path that \<^verbatim>\<open>calculateNetSuitePath\<close> computes starts with exactly one \<^verbatim>\<open>/\<close> and
  contains no \<^verbatim>\<open>//\<close>. It is determined by the relative path and by the two values
  that \<^verbatim>\<open>getCredential\<close> resolves for \<^verbatim>\<open>uploadFrom\<close> and \<^verbatim>\<open>rootPath\<close>: two states
  that resolve both keys alike give the same path.
\<close>

theorem netSuitePath_shape:
  "startsWith (fst (calculateNetSuitePath rel ws ed)) ''/'' \<and>
   \<not> startsWith (fst (calculateNetSuitePath rel ws ed)) ''//'' \<and>
   \<not> sublist ''//'' (fst (calculateNetSuitePath rel ws ed)) \<and>
   (fst (getCredential ''uploadFrom'' (Some ws) ed) =
      fst (getCredential ''uploadFrom'' (Some ws) ed2) \<longrightarrow>
    fst (getCredential ''rootPath'' (Some ws) ed) =
      fst (getCredential ''rootPath'' (Some ws) ed2) \<longrightarrow>
    fst (calculateNetSuitePath rel ws ed) = fst (calculateNetSuitePath rel ws ed2))"
proof -
  obtain x where x: "fst (calculateNetSuitePath rel ws ed) = collapseSlashes (slash # x)"
    using calculateNetSuitePath_collapsed by blast
  obtain env ed' where l: "loadEnvConfig (Some ws) ed = (env, ed')"
    by (cases "loadEnvConfig (Some ws) ed")
  obtain env2 ed2' where l2: "loadEnvConfig (Some ws) ed2 = (env2, ed2')"
    by (cases "loadEnvConfig (Some ws) ed2")
  have det: "fst (getCredential ''uploadFrom'' (Some ws) ed) =
      fst (getCredential ''uploadFrom'' (Some ws) ed2) \<longrightarrow>
    fst (getCredential ''rootPath'' (Some ws) ed) =
      fst (getCredential ''rootPath'' (Some ws) ed2) \<longrightarrow>
    fst (calculateNetSuitePath rel ws ed) = fst (calculateNetSuitePath rel ws ed2)"
    by (simp add: calculateNetSuitePath_def getCredential_eq[OF l] getCredential_eq[OF l2]
          Let_def split: option.splits)
  show ?thesis using collapsed_shape[of x] det by (simp add: x)
qed

subsection \<open>Resolving the file to upload\<close>

theorem netSuitePath_shape_witness:
  "startsWith (fst (calculateNetSuitePath ''dist/lib/x.js'' ''/ws'' edEnv)) ''/'' \<and>
   \<not> startsWith (fst (calculateNetSuitePath ''dist/lib/x.js'' ''/ws'' edEnv)) ''//'' \<and>
   \<not> sublist ''//'' (fst (calculateNetSuitePath ''dist/lib/x.js'' ''/ws'' edEnv)) \<and>
   fst (getCredential ''uploadFrom'' (Some ''/ws'') edEnv) =
     fst (getCredential ''uploadFrom'' (Some ''/ws'') edCached) \<and>
   fst (getCredential ''rootPath'' (Some ''/ws'') edEnv) =
     fst (getCredential ''rootPath'' (Some ''/ws'') edCached) \<and>
   fst (calculateNetSuitePath ''dist/lib/x.js'' ''/ws'' edEnv) =
     fst (calculateNetSuitePath ''dist/lib/x.js'' ''/ws'' edCached)"
proof -
  have u: "fst (getCredential ''uploadFrom'' (Some ''/ws'') edEnv) =
     fst (getCredential ''uploadFrom'' (Some ''/ws'') edCached)" by code_simp
  have r: "fst (getCredential ''rootPath'' (Some ''/ws'') edEnv) =
     fst (getCredential ''rootPath'' (Some ''/ws'') edCached)" by code_simp
  note T = netSuitePath_shape[of "''dist/lib/x.js''" "''/ws''" edEnv edCached]
  show ?thesis using T u r by blast
qed

text \<open>
  C5, the counterexample to the claim as stated. The resolver is not free of I/O: with the
  same arguments and the same settings, the computed path follows the content of the
  \<^verbatim>\<open>.env\<close> file of the workspace, and the call fills the cache and writes a line to the
  output channel.
\<close>

theorem resolver_reads_env_files_counterexample:
  "fst (calculateNetSuitePath ''dist/lib/x.js'' ''/ws'' edEnv) = ''/Root/lib/x.js'' \<and>
   fst (calculateNetSuitePath ''dist/lib/x.js'' ''/ws'' edPlain) = ''/SuiteScripts/lib/x.js'' \<and>
   settings edEnv = settings edPlain \<and>
   envConfigCache edEnv = [] \<and>
   envConfigCache (snd (calculateNetSuitePath ''dist/lib/x.js'' ''/ws'' edEnv)) =
     [(''/ws'', [(''NS_ROOT_PATH'', ''/Root'')])] \<and>
   outputChannel (snd (calculateNetSuitePath ''dist/lib/x.js'' ''/ws'' edEnv)) =
     [''Loaded credentials from: .env'']"
  by code_simp

lemma split_append_sep: "split sep (a @ sep # b) = split sep a @ split sep b"
proof (induction a)
  case Nil
  show ?case by simp
next
  case (Cons c a)
  show ?case using Cons split_not_Nil[of sep a] by (auto split: list.splits)
qed

lemma pathSegments_append:
  "pathSegments (a @ slash # b) = pathSegments a @ pathSegments b"
  by (simp add: pathSegments_def split_append_sep)

lemma dropCommon_prefix: "dropCommon xs (xs @ ys) = ([], ys)"
  by (induction xs) simp_all

lemma pathRelative_join:
  "pathRelative ws (pathJoin ws rel) = join (pathSegments rel)"
  using pathSegments_append[of ws rel]
  by (simp add: pathRelative_def pathJoin_def dropCommon_prefix slash_def)

text \<open>
  C4. With the watch folder \<^verbatim>\<open>src\<close> and the upload folder \<^verbatim>\<open>dist\<close>, the saved file
  \<^verbatim>\<open>src/FileCabinet/SuiteScripts/a/b.js\<close> of a workspace resolves to the physical file
  \<^verbatim>\<open>dist/FileCabinet/SuiteScripts/a/b.js\<close> of that workspace, is marked as mapped, and
  has the logical remote path \<^verbatim>\<open>/SuiteScripts/a/b.js\<close>, whatever the root remote path
  is configured to be.
\<close>

theorem remap_src_to_dist:
  assumes "orElse (fst (getCredential ''uploadFrom'' (Some ws) ed)) ''dist'' = ''dist''"
    and "orElse (fst (getCredential ''watchFolder'' (Some ws) ed)) ''src'' = ''src''"
  shows "fst (resolveUploadFile (pathJoin ws ''src/FileCabinet/SuiteScripts/a/b.js'') ws ed) =
           \<lparr>uploadPath = pathJoin ws ''dist/FileCabinet/SuiteScripts/a/b.js'',
             relativePath = ''dist/FileCabinet/SuiteScripts/a/b.js'',
             netSuitePath = ''/SuiteScripts/a/b.js'', isMapped = True,
             originalPath = Some (pathJoin ws ''src/FileCabinet/SuiteScripts/a/b.js'')\<rparr> \<and>
         endsWith
           (uploadPath
              (fst (resolveUploadFile (pathJoin ws ''src/FileCabinet/SuiteScripts/a/b.js'') ws ed)))
           ''dist/FileCabinet/SuiteScripts/a/b.js''"
proof -
  obtain env ed' where l: "loadEnvConfig (Some ws) ed = (env, ed')"
    by (cases "loadEnvConfig (Some ws) ed")
  note G = getCredential_eq[OF l]
  have u: "orElse (credentialValue env (settings ed) ''uploadFrom'') ''dist'' = ''dist''"
    using assms(1) by (simp add: G)
  have w: "orElse (credentialValue env (settings ed) ''watchFolder'') ''src'' = ''src''"
    using assms(2) by (simp add: G)
  have rel: "replaceBackslashes (pathRelative ws (pathJoin ws ''src/FileCabinet/SuiteScripts/a/b.js'')) =
      ''src/FileCabinet/SuiteScripts/a/b.js''"
  proof -
    have "replaceBackslashes (join (pathSegments ''src/FileCabinet/SuiteScripts/a/b.js'')) =
      ''src/FileCabinet/SuiteScripts/a/b.js''" by code_simp
    then show ?thesis by (simp only: pathRelative_join)
  qed
  have sw: "startsWith ''src/FileCabinet/SuiteScripts/a/b.js'' ''src/''" by code_simp
  have n: "removePrefix ''FileCabinet/''
      (removePrefix ''dist/'' (replaceBackslashes ''dist/FileCabinet/SuiteScripts/a/b.js'')) =
      ''SuiteScripts/a/b.js''" by code_simp
  have i: "indexOf (toLowerCase ''SuiteScripts/a/b.js'') ''suitescripts/'' = Some 0" by code_simp
  have c: "collapseSlashes (ensureLeadingSlash ''SuiteScripts/a/b.js'') =
      ''/SuiteScripts/a/b.js''" by code_simp
  have calc: "calculateNetSuitePath ''dist/FileCabinet/SuiteScripts/a/b.js'' ws ed' =
      (''/SuiteScripts/a/b.js'', ed')"
    by (simp add: calculateNetSuitePath_def G u Let_def n i c)
  have ne: "''dist'' \<noteq> ''src''" by simp
  have res: "resolveUploadFile (pathJoin ws ''src/FileCabinet/SuiteScripts/a/b.js'') ws ed =
     (\<lparr>uploadPath = pathJoin ws ''dist/FileCabinet/SuiteScripts/a/b.js'',
             relativePath = ''dist/FileCabinet/SuiteScripts/a/b.js'',
             netSuitePath = ''/SuiteScripts/a/b.js'', isMapped = True,
             originalPath = Some (pathJoin ws ''src/FileCabinet/SuiteScripts/a/b.js'')\<rparr>, ed')"
    using sw calc by (simp add: resolveUploadFile_def G u w Let_def rel)
  have e: "endsWith (pathJoin ws ''dist/FileCabinet/SuiteScripts/a/b.js'')
             ''dist/FileCabinet/SuiteScripts/a/b.js''"
    by (simp add: endsWith_def pathJoin_def)
  show ?thesis using e by (simp add: res)
qed

theorem remap_src_to_dist_witness:
  "orElse (fst (getCredential ''uploadFrom'' (Some ''/ws'') edEnv)) ''dist'' = ''dist'' \<and>
   orElse (fst (getCredential ''watchFolder'' (Some ''/ws'') edEnv)) ''src'' = ''src'' \<and>
   orElse (fst (getCredential ''rootPath'' (Some ''/ws'') edPlain)) ''/SuiteScripts'' = ''/SuiteScripts'' \<and>
   netSuitePath (fst (resolveUploadFile ''/ws/src/FileCabinet/SuiteScripts/a/b.js'' ''/ws'' edEnv)) =
     ''/SuiteScripts/a/b.js'' \<and>
   uploadPath (fst (resolveUploadFile ''/ws/src/FileCabinet/SuiteScripts/a/b.js'' ''/ws'' edEnv)) =
     ''/ws/dist/FileCabinet/SuiteScripts/a/b.js'' \<and>
   isMapped (fst (resolveUploadFile ''/ws/src/FileCabinet/SuiteScripts/a/b.js'' ''/ws'' edEnv))"
proof -
  have u: "orElse (fst (getCredential ''uploadFrom'' (Some ''/ws'') edEnv)) ''dist'' = ''dist''"
    by code_simp
  have w: "orElse (fst (getCredential ''watchFolder'' (Some ''/ws'') edEnv)) ''src'' = ''src''"
    by code_simp
  have r: "orElse (fst (getCredential ''rootPath'' (Some ''/ws'') edPlain)) ''/SuiteScripts'' = ''/SuiteScripts''"
    by code_simp
  from remap_src_to_dist[OF u w, THEN conjunct1] show ?thesis
    using u w r by (simp add: pathJoin_def)
qed

subsection \<open>The request of the extension\<close>

lemma log_keeps:
  "settings (log m ed) = settings ed" "fileSystem (log m ed) = fileSystem ed"
  "envConfigCache (log m ed) = envConfigCache ed" "requests (log m ed) = requests ed"
  "uploadHistory (log m ed) = uploadHistory ed" "numericSettings (log m ed) = numericSettings ed"
  by (simp_all add: log_def)

lemma handleOutcome_requests: "requests (snd (handleOutcome timeout outcome ed)) = requests ed"
  by (simp add: handleOutcome_def log_keeps split: http_outcome.splits http_body.splits)

lemma loadEnvConfig_cached:
  "map_of (envConfigCache ed) w = Some env \<Longrightarrow> loadEnvConfig (Some w) ed = (env, ed)"
  by (simp add: loadEnvConfig_def)

lemma loadEnvConfig_caches:
  assumes "loadEnvConfig (Some w) ed = (env, ed')"
  shows "map_of (envConfigCache ed') w = Some env"
proof (cases "map_of (envConfigCache ed) w")
  case (Some cached)
  with assms show ?thesis by (auto simp: loadEnvConfig_def)
next
  case None
  obtain e1 d1 where f: "fold (loadEnvFile w) envFiles ([], ed) = (e1, d1)"
    by (cases "fold (loadEnvFile w) envFiles ([], ed)")
  from assms None f show ?thesis by (auto simp: loadEnvConfig_def)
qed

lemma getSubstitution_plain:
  "CHR ''$'' \<notin> set replacement \<Longrightarrow> getSubstitution m l r replacement = replacement"
  by (induction m l r replacement rule: getSubstitution.induct) auto

lemma indexOf_prefix: "indexOf (p @ s) p = Some 0"
proof (cases "p @ s")
  case Nil
  then show ?thesis by simp
next
  case (Cons a list)
  have "startsWith (p @ s) p" by (simp add: startsWith_def)
  then show ?thesis by (simp add: Cons)
qed

lemma replaceFirst_prefix:
  "CHR ''$'' \<notin> set replacement \<Longrightarrow> replaceFirst (p @ s) p replacement = replacement @ s"
  by (simp add: replaceFirst_def indexOf_prefix getSubstitution_plain)

lemma makeAuthenticatedRequest_eq:
  assumes "loadEnvConfig ws ed = (env, ed')"
  shows "makeAuthenticatedRequest nd url method payload ws ed =
     (if \<exists>key\<in>set requiredCredentials. \<not> truthy (credentialValue env (settings ed) key)
      then (Inl credentialsError, ed')
      else (case parseURL nd url of
         None \<Rightarrow> (Inl invalidUrlError, ed')
       | Some urlParsed \<Rightarrow>
           handleOutcome (numberOr ''requestTimeout'' 30000 ed)
             (endpoint nd
                \<lparr>req_hostname = hostname urlParsed,
                  req_port = orElse (Some (port urlParsed)) ''443'',
                  req_path = pathname urlParsed @ search urlParsed,
                  req_method = method,
                  req_authorization =
                    replaceFirst
                      (oauthToHeader nd url method
                         (the (credentialValue env (settings ed) ''oauth.consumerKey''))
                         (the (credentialValue env (settings ed) ''oauth.consumerSecret''))
                         (the (credentialValue env (settings ed) ''oauth.tokenId''))
                         (the (credentialValue env (settings ed) ''oauth.tokenSecret'')))
                      ''OAuth ''
                      (''OAuth realm='' @ dquote @
                       the (credentialValue env (settings ed) ''accountId'') @ dquote @ '',''),
                  req_body = payload\<rparr>)
             ((log ''Making request'' ed')\<lparr>requests := requests ed' @
                [\<lparr>req_hostname = hostname urlParsed,
                  req_port = orElse (Some (port urlParsed)) ''443'',
                  req_path = pathname urlParsed @ search urlParsed,
                  req_method = method,
                  req_authorization =
                    replaceFirst
                      (oauthToHeader nd url method
                         (the (credentialValue env (settings ed) ''oauth.consumerKey''))
                         (the (credentialValue env (settings ed) ''oauth.consumerSecret''))
                         (the (credentialValue env (settings ed) ''oauth.tokenId''))
                         (the (credentialValue env (settings ed) ''oauth.tokenSecret'')))
                      ''OAuth ''
                      (''OAuth realm='' @ dquote @
                       the (credentialValue env (settings ed) ''accountId'') @ dquote @ '',''),
                  req_body = payload\<rparr>]\<rparr>)))"
  by (simp add: makeAuthenticatedRequest_def getCredential_eq[OF assms] Let_def
        requiredCredentials_def split: option.splits)

subsection \<open>Credentials and the Authorization header\<close>



text \<open>
  Where the account id holds no \<^verbatim>\<open>$\<close>, the request that \<^verbatim>\<open>makeAuthenticatedRequest\<close>
  hands to \<^verbatim>\<open>https.request\<close> carries the Authorization value
  \<^verbatim>\<open>OAuth realm="<accountId>",\<close> followed by the \<^verbatim>\<open>oauth_*\<close> parameters of the header that
  the OAuth library built.
\<close>

lemma realm_embedded_for_plain_account_id:
  assumes "\<forall>key\<in>set requiredCredentials. truthy (fst (getCredential key ws ed))"
    and "parseURL nd url = Some u"
    and "fst (getCredential ''accountId'' ws ed) = Some accountId"
    and "CHR ''$'' \<notin> set accountId"
  shows "\<exists>req. requests (snd (makeAuthenticatedRequest nd url method payload ws ed)) =
                 requests ed @ [req] \<and>
               req_authorization req =
                 ''OAuth realm='' @ dquote @ accountId @ dquote @ '','' @
                 oauthParameters nd url method
                   (the (fst (getCredential ''oauth.consumerKey'' ws ed)))
                   (the (fst (getCredential ''oauth.consumerSecret'' ws ed)))
                   (the (fst (getCredential ''oauth.tokenId'' ws ed)))
                   (the (fst (getCredential ''oauth.tokenSecret'' ws ed)))"
proof -
  obtain env ed' where l: "loadEnvConfig ws ed = (env, ed')" by (cases "loadEnvConfig ws ed")
  have v: "\<And>key. fst (getCredential key ws ed) = credentialValue env (settings ed) key"
    by (simp add: getCredential_eq[OF l])
  have r: "requests ed' = requests ed" using loadEnvConfig_keeps(3)[OF l] .
  have d: "CHR ''$'' \<notin> set (''OAuth realm='' @ dquote @ accountId @ dquote @ '','')"
    using assms(4) by (simp add: dquote_def)
  have a: "credentialValue env (settings ed) ''accountId'' = Some accountId"
    using assms(3) by (simp add: v)
  have t: "\<not> (\<exists>key\<in>set requiredCredentials. \<not> truthy (credentialValue env (settings ed) key))"
    using assms(1) by (simp add: v)
  have rf: "\<And>k1 k2 k3 k4. replaceFirst (oauthToHeader nd url method k1 k2 k3 k4) ''OAuth ''
        (''OAuth realm='' @ dquote @ accountId @ dquote @ '','') =
      (''OAuth realm='' @ dquote @ accountId @ dquote @ '','') @
      oauthParameters nd url method k1 k2 k3 k4"
    by (simp only: oauthToHeader_def replaceFirst_prefix[OF d])
  show ?thesis
    unfolding v makeAuthenticatedRequest_eq[OF l]
    using t
    by (simp add: assms(2) a r handleOutcome_requests log_keeps rf del: append.simps)
qed

text \<open>
  C8, at an account id with a replacement pattern. The claim has every signed request carry
  \<^verbatim>\<open>OAuth realm="<accountId>"\<close>. The code puts the account id into the replacement
  string of \<^verbatim>\<open>String.prototype.replace\<close> as it is, where \<^verbatim>\<open>$&\<close> stands for the matched
  text \<^verbatim>\<open>OAuth \<close>: with all five values present and the account id \<^verbatim>\<open>a$&b\<close>, the
  header of the request starts \<^verbatim>\<open>OAuth realm="aOAuth b",\<close> and the account id is not in
  it.
\<close>

theorem substitution_pattern_in_account_id:
  "list_all (\<lambda>key. truthy (fst (getCredential key (Some ''/ws'') edDollar)))
     requiredCredentials \<and>
   fst (getCredential ''accountId'' (Some ''/ws'') edDollar) = Some ''a$&b'' \<and>
   map req_authorization (requests (snd (makeAuthenticatedRequest nodeExample
      ''https://host/restlet'' ''POST'' None (Some ''/ws'') edDollar))) =
     [''OAuth realm='' @ dquote @ ''aOAuth b'' @ dquote @
      '',oauth_consumer_key='' @ dquote @ ''ck'' @ dquote @
      '', oauth_token='' @ dquote @ ''ti'' @ dquote @
      '', oauth_signature_method='' @ dquote @ ''HMAC-SHA256'' @ dquote @
      '', oauth_timestamp='' @ dquote @ ''1700000000'' @ dquote @
      '', oauth_nonce='' @ dquote @ ''nonce'' @ dquote @
      '', oauth_signature='' @ dquote @ ''c2ln'' @ dquote] \<and>
   list_all (\<lambda>header. \<not> includesStr header (''realm='' @ dquote @ ''a$&b'' @ dquote))
     (map req_authorization (requests (snd (makeAuthenticatedRequest nodeExample
        ''https://host/restlet'' ''POST'' None (Some ''/ws'') edDollar))))"
  by code_simp

theorem substitution_pattern_in_account_id_witness:
  "map (\<lambda>header. startsWith header (''OAuth realm='' @ dquote @ ''a$&b'' @ dquote))
     (map req_authorization (requests (snd (makeAuthenticatedRequest nodeExample
        ''https://host/restlet'' ''POST'' None (Some ''/ws'') edDollar)))) = [False] \<and>
   map (\<lambda>header. startsWith header (''OAuth realm='' @ dquote @ ''aOAuth b'' @ dquote))
     (map req_authorization (requests (snd (makeAuthenticatedRequest nodeExample
        ''https://host/restlet'' ''POST'' None (Some ''/ws'') edDollar)))) = [True]"
  using substitution_pattern_in_account_id
  by (simp add: startsWith_def dquote_def)

subsection \<open>The resolver once the configuration is loaded\<close>

lemma calculateNetSuitePath_loaded:
  assumes "loadEnvConfig (Some w) ed = (env, ed')"
  shows "snd (calculateNetSuitePath rel w ed) = ed'"
    and "calculateNetSuitePath rel w ed' = calculateNetSuitePath rel w ed"
  by (simp_all add: calculateNetSuitePath_def getCredential_eq[OF assms] Let_def
        split: option.splits)

lemma resolveUploadFile_loaded:
  assumes "loadEnvConfig (Some w) ed = (env, ed')"
  shows "snd (resolveUploadFile f w ed) = ed'"
    and "resolveUploadFile f w ed' = resolveUploadFile f w ed"
proof -
  note C = calculateNetSuitePath_loaded[OF loadEnvConfig_again[OF assms]]
  show "snd (resolveUploadFile f w ed) = ed'"
    by (simp add: resolveUploadFile_def getCredential_eq[OF assms] Let_def case_prod_beta C(1))
  show "resolveUploadFile f w ed' = resolveUploadFile f w ed"
    by (simp add: resolveUploadFile_def getCredential_eq[OF assms] Let_def)
qed

lemma resolveUploadFile_depends:
  assumes "loadEnvConfig (Some w) ed = (env, ed')" "loadEnvConfig (Some w) ed2 = (env, ed2')"
    "settings ed = settings ed2"
  shows "fst (resolveUploadFile f w ed) = fst (resolveUploadFile f w ed2)"
proof -
  have c: "\<And>rel. fst (calculateNetSuitePath rel w ed') = fst (calculateNetSuitePath rel w ed2')"
    using assms(3)
    by (simp add: calculateNetSuitePath_def getCredential_eq[OF assms(1)]
          getCredential_eq[OF assms(2)] Let_def split: option.splits)
  have s: "\<And>rel. snd (calculateNetSuitePath rel w ed') = ed'"
    "\<And>rel. snd (calculateNetSuitePath rel w ed2') = ed2'"
    using calculateNetSuitePath_loaded(1)[OF loadEnvConfig_again[OF assms(1)]]
      calculateNetSuitePath_loaded(1)[OF loadEnvConfig_again[OF assms(2)]] by simp_all
  show ?thesis
    using assms(3) c
    by (simp add: resolveUploadFile_def getCredential_eq[OF assms(1)]
          getCredential_eq[OF assms(2)] Let_def case_prod_beta)
qed

subsection \<open>The request of an upload\<close>

lemma uploadFile_request:
  assumes ws: "doc_workspaceFolder doc = Some w"
    and l: "loadEnvConfig (Some w) ed = (env, ed')"
    and url: "credentialValue env (settings ed) ''restletUrl'' = Some url" "url \<noteq> []"
    and creds: "\<forall>key\<in>set requiredCredentials. truthy (credentialValue env (settings ed) key)"
    and parse: "parseURL nd url = Some u"
    and info: "fst (resolveUploadFile (doc_fileName doc) w ed) = info"
    and fileq: "map_of (fileSystem ed) (uploadPath info) = Some text"
  shows "\<exists>auth timeout pre. requests pre = requests ed \<and> uploadFile nd doc ed =
     (let req = \<lparr>req_hostname = hostname u, req_port = orElse (Some (port u)) ''443'',
                  req_path = pathname u @ search u, req_method = ''POST'',
                  req_authorization = auth,
                  req_body = Some \<lparr>path = Some (netSuitePath info), content = Some text,
                                    encoding = Some ''utf8'', folder = None,
                                    description = Some (''Uploaded via Auto-Upload from '' @
                                                        relativePath info)\<rparr>\<rparr>;
          name = pathBasename (uploadPath info)
      in case handleOutcome timeout (endpoint nd req)
                (pre\<lparr>requests := requests ed @ [req]\<rparr>) of
           (Inl e, ed4) \<Rightarrow> (UploadFailed (err_message e), log (''Upload failed: '' @ name) ed4)
         | (Inr response, ed4) \<Rightarrow>
             if r_success response
             then (Uploaded response,
                   recordUpload info response (log (''Upload successful: '' @ name) ed4))
             else (UploadFailed (orElse (r_message response)
                                   (orElse (r_error response) ''Upload failed'')),
                   log (''Upload failed: '' @ name) ed4))"
proof -
  note K = loadEnvConfig_keeps[OF l]
  let ?ed2w = "if isMapped info
      then log (''Waiting '' @ showNat (numberOr ''waitForBuild'' 500 ed) @ ''ms for build...'') ed'
      else ed'"
  let ?note = "if isMapped info then '' (from '' @ showSetting ''uploadFrom'' ed @ '')'' else []"
  let ?ed3 = "log (''Uploading: '' @ pathBasename (uploadPath info) @ ?note) ?ed2w"
  have k3: "settings ?ed3 = settings ed" "fileSystem ?ed3 = fileSystem ed"
    "envConfigCache ?ed3 = envConfigCache ed'" "requests ?ed3 = requests ed"
    "fileSystem ?ed2w = fileSystem ed"
    by (cases "isMapped info"; simp add: log_keeps K)+
  have r: "resolveUploadFile (doc_fileName doc) w ed' = (info, ed')"
    using resolveUploadFile_loaded[OF l, of "doc_fileName doc"] info
    by (metis prod.collapse)
  have l3: "loadEnvConfig (Some w) ?ed3 = (env, ?ed3)"
    using loadEnvConfig_caches[OF l] by (intro loadEnvConfig_cached) (simp only: k3)
  have t: "truthy (Some url)" using url(2) by (simp add: truthy_def)
  have c3: "\<not> (\<exists>key\<in>set requiredCredentials.
               \<not> truthy (credentialValue env (settings ?ed3) key))"
    using creds by (simp only: k3) simp
  have f3: "map_of (fileSystem ?ed3) (uploadPath info) = Some text"
    "map_of (fileSystem ?ed2w) (uploadPath info) = Some text"
    using fileq by (simp_all only: k3)
  let ?auth = "replaceFirst
                      (oauthToHeader nd url ''POST''
                         (the (credentialValue env (settings ed) ''oauth.consumerKey''))
                         (the (credentialValue env (settings ed) ''oauth.consumerSecret''))
                         (the (credentialValue env (settings ed) ''oauth.tokenId''))
                         (the (credentialValue env (settings ed) ''oauth.tokenSecret'')))
                      ''OAuth ''
                      (''OAuth realm='' @ dquote @
                       the (credentialValue env (settings ed) ''accountId'') @ dquote @ '','')"
  let ?payload = "\<lparr>path = Some (netSuitePath info), content = Some text,
               encoding = Some ''utf8'', folder = None,
               description = Some (''Uploaded via Auto-Upload from '' @ relativePath info)\<rparr>"
  let ?req = "\<lparr>req_hostname = hostname u, req_port = orElse (Some (port u)) ''443'',
                  req_path = pathname u @ search u, req_method = ''POST'',
                  req_authorization = ?auth, req_body = Some ?payload\<rparr>"
  let ?pre = "log ''Making request'' ?ed3"
  have m: "makeAuthenticatedRequest nd url ''POST'' (Some ?payload) (Some w) ?ed3 =
     handleOutcome (numberOr ''requestTimeout'' 30000 ?ed3) (endpoint nd ?req)
       (?pre\<lparr>requests := requests ed @ [?req]\<rparr>)"
    unfolding makeAuthenticatedRequest_eq[OF l3] k3
    using c3[unfolded k3] parse by (simp add: k3 del: append.simps)
  have pre: "requests ?pre = requests ed" using k3(4) by (simp add: log_keeps)
  have u: "uploadFile nd doc ed =
     (case handleOutcome (numberOr ''requestTimeout'' 30000 ?ed3) (endpoint nd ?req)
                (?pre\<lparr>requests := requests ed @ [?req]\<rparr>) of
           (Inl e, ed4) \<Rightarrow>
             (UploadFailed (err_message e),
              log (''Upload failed: '' @ pathBasename (uploadPath info)) ed4)
         | (Inr response, ed4) \<Rightarrow>
             if r_success response
             then (Uploaded response,
                   recordUpload info response
                     (log (''Upload successful: '' @ pathBasename (uploadPath info)) ed4))
             else (UploadFailed (orElse (r_message response)
                                   (orElse (r_error response) ''Upload failed'')),
                   log (''Upload failed: '' @ pathBasename (uploadPath info)) ed4))"
    unfolding uploadFile_def getCredential_eq[OF l] ws url(1)
    using t f3 by (simp add: r m Let_def del: append.simps)
  show ?thesis
    by (intro exI[of _ ?auth] exI[of _ "numberOr ''requestTimeout'' 30000 ?ed3"] exI[of _ ?pre]
          conjI pre) (simp only: u Let_def)
qed

subsection \<open>The size limit of the RESTlet\<close>

lemma validateRequest_within_limit:
  assumes "path context = Some p" "p \<noteq> []" "content context = Some c"
    "length c \<le> maxFileSize" "\<not> includesStr p ''..''"
  shows "validateRequest context = Valid"
  using assms by (simp add: validateRequest_def)

lemma validateRequest_too_large:
  assumes "path context = Some p" "p \<noteq> []" "content context = Some c"
    "length c > maxFileSize"
  shows "validateRequest context = Invalid ''FILE_TOO_LARGE'' (tooLargeMessage (length c))"
    and "post ns context = (Failure ''FILE_TOO_LARGE'' (tooLargeMessage (length c)), ns)"
  using assms by (simp_all add: validateRequest_def post_def)

lemma fileSave_error: "fst (fileSave ns opts) = Inl e \<Longrightarrow> e = platformError"
  by (cases "faults ns")
     (auto simp: fileSave_def invoke_def Let_def
        split: option.splits name_conflict_resolution.splits bool.splits)

lemma updateExistingFile_not_too_large:
  "fst (updateExistingFile ns ex name ft c d e fp) \<noteq> Failure ''FILE_TOO_LARGE'' m"
proof -
  obtain s ns' where s: "fileSave ns \<lparr>opt_name = name, opt_fileType = ft,
      opt_folder = ex_folderId ex, opt_contents = c, opt_description = d,
      opt_encoding = (if e = ''base64'' then BASE_64 else UTF_8),
      opt_conflictResolution = Some OVERWRITE\<rparr> = (s, ns')"
    by (metis prod.collapse)
  have "\<And>a. s = Inl a \<Longrightarrow> a = platformError"
    using fileSave_error s by (metis fst_conv)
  then show ?thesis using s
    by (cases s) (auto simp: updateExistingFile_def errorResponse_def platformError_def)
qed

lemma createNewFile_not_too_large:
  "fst (createNewFile ns cf p name ft c d e fp) \<noteq> Failure ''FILE_TOO_LARGE'' m"
proof -
  let ?choice = "(case cf of None \<Rightarrow> findOrCreateFolderPath ns p
            | Some f \<Rightarrow> if f \<noteq> 0 then (f, ns) else findOrCreateFolderPath ns p)"
  obtain folderId ns1 where ch: "?choice = (folderId, ns1)" by (cases ?choice)
  obtain s ns' where s: "fileSave ns1 \<lparr>opt_name = name, opt_fileType = ft,
      opt_folder = folderId, opt_contents = c, opt_description = d,
      opt_encoding = (if e = ''base64'' then BASE_64 else UTF_8),
      opt_conflictResolution = None\<rparr> = (s, ns')"
    by (metis prod.collapse)
  have "\<And>a. s = Inl a \<Longrightarrow> a = platformError"
    using fileSave_error s by (metis fst_conv)
  then show ?thesis using s ch
    by (cases s) (auto simp: createNewFile_def errorResponse_def platformError_def)
qed

lemma post_valid_not_too_large:
  assumes "validateRequest context = Valid"
  shows "fst (post ns context) \<noteq> Failure ''FILE_TOO_LARGE'' m"
proof (cases "\<exists>p c. path context = Some p \<and> content context = Some c")
  case True
  then obtain p c where pc: "path context = Some p" "content context = Some c" by blast
  show ?thesis
    unfolding post_valid[OF assms pc]
    using updateExistingFile_not_too_large createNewFile_not_too_large
    by (auto split: prod.splits option.splits)
next
  case False
  then show ?thesis using assms
    by (auto simp: validateRequest_def split: option.splits if_splits)
qed

lemma recordUpload_requests: "requests (recordUpload info r ed) = requests ed"
  by (simp add: recordUpload_def Let_def)

lemma uploadFile_sends:
  assumes "doc_workspaceFolder doc = Some w"
    and "truthy (fst (getCredential ''restletUrl'' (Some w) ed))"
    and "\<forall>key\<in>set requiredCredentials. truthy (fst (getCredential key (Some w) ed))"
    and "parseURL nd (the (fst (getCredential ''restletUrl'' (Some w) ed))) \<noteq> None"
    and "map_of (fileSystem ed) (uploadPath (fst (resolveUploadFile (doc_fileName doc) w ed))) =
           Some text"
  shows "\<exists>req payload. requests (snd (uploadFile nd doc ed)) = requests ed @ [req] \<and>
           req_body req = Some payload \<and> content payload = Some text"
proof -
  obtain env ed' where l: "loadEnvConfig (Some w) ed = (env, ed')"
    by (cases "loadEnvConfig (Some w) ed")
  have v: "\<And>key. fst (getCredential key (Some w) ed) = credentialValue env (settings ed) key"
    by (simp add: getCredential_eq[OF l])
  from assms(2) obtain url where url: "credentialValue env (settings ed) ''restletUrl'' = Some url"
    "url \<noteq> []" by (auto simp: v truthy_def split: option.splits)
  from assms(4) obtain u where u: "parseURL nd url = Some u" by (auto simp: v url)
  let ?info = "fst (resolveUploadFile (doc_fileName doc) w ed)"
  let ?payload = "\<lparr>path = Some (netSuitePath ?info), content = Some text,
      encoding = Some ''utf8'', folder = None,
      description = Some (''Uploaded via Auto-Upload from '' @ relativePath ?info)\<rparr>"
  from uploadFile_request[OF assms(1) l url assms(3)[unfolded v] u refl assms(5)]
  obtain auth timeout pre where pre: "requests pre = requests ed" and a: "uploadFile nd doc ed =
     (let req = \<lparr>req_hostname = hostname u, req_port = orElse (Some (port u)) ''443'',
                  req_path = pathname u @ search u, req_method = ''POST'',
                  req_authorization = auth, req_body = Some ?payload\<rparr>;
          name = pathBasename (uploadPath ?info)
      in case handleOutcome timeout (endpoint nd req)
                (pre\<lparr>requests := requests ed @ [req]\<rparr>) of
           (Inl e, ed4) \<Rightarrow> (UploadFailed (err_message e), log (''Upload failed: '' @ name) ed4)
         | (Inr response, ed4) \<Rightarrow>
             if r_success response
             then (Uploaded response,
                   recordUpload ?info response (log (''Upload successful: '' @ name) ed4))
             else (UploadFailed (orElse (r_message response)
                                   (orElse (r_error response) ''Upload failed'')),
                   log (''Upload failed: '' @ name) ed4))" by blast
  let ?req = "\<lparr>req_hostname = hostname u, req_port = orElse (Some (port u)) ''443'',
      req_path = pathname u @ search u, req_method = ''POST'',
      req_authorization = auth, req_body = Some ?payload\<rparr>"
  let ?st = "pre\<lparr>requests := requests ed @ [?req]\<rparr>"
  obtain res ed4 where h: "handleOutcome timeout (endpoint nd ?req) ?st = (res, ed4)"
    by (cases "handleOutcome timeout (endpoint nd ?req) ?st")
  have r4: "requests ed4 = requests ed @ [?req]"
    using handleOutcome_requests[of timeout "endpoint nd ?req" ?st] h by simp
  have "requests (snd (uploadFile nd doc ed)) = requests ed @ [?req]"
    unfolding a Let_def h
    by (cases res) (simp_all add: log_keeps recordUpload_requests r4 del: append.simps)
  moreover have "req_body ?req = Some ?payload \<and> content ?payload = Some text" by simp
  ultimately show ?thesis by blast
qed

subsection \<open>An oversized upload\<close>

lemma resolveUploadFile_netSuitePath:
  "\<exists>rel ed2. netSuitePath (fst (resolveUploadFile f w ed)) = fst (calculateNetSuitePath rel w ed2)"
  by (auto simp: resolveUploadFile_def Let_def case_prod_beta)

lemma netSuitePath_not_empty: "netSuitePath (fst (resolveUploadFile f w ed)) \<noteq> []"
proof -
  obtain rel ed2 where a: "netSuitePath (fst (resolveUploadFile f w ed)) =
      fst (calculateNetSuitePath rel w ed2)"
    using resolveUploadFile_netSuitePath by blast
  obtain x where "fst (calculateNetSuitePath rel w ed2) = collapseSlashes (slash # x)"
    using calculateNetSuitePath_collapsed by blast
  then show ?thesis using a collapseSlashes_head by (metis list.distinct(1))
qed

lemma tooLargeMessage_truthy: "orElse (Some (tooLargeMessage n)) d = tooLargeMessage n"
  by (simp add: tooLargeMessage_def orElse_def truthy_def)

lemma uploadFile_too_large:
  assumes "doc_workspaceFolder doc = Some w"
    and "truthy (fst (getCredential ''restletUrl'' (Some w) ed))"
    and "\<forall>key\<in>set requiredCredentials. truthy (fst (getCredential key (Some w) ed))"
    and "parseURL nd (the (fst (getCredential ''restletUrl'' (Some w) ed))) \<noteq> None"
    and "map_of (fileSystem ed) (uploadPath (fst (resolveUploadFile (doc_fileName doc) w ed))) =
           Some text"
    and "endpoint nd = restletEndpoint ns"
    and "length text > maxFileSize"
  shows "fst (uploadFile nd doc ed) = UploadFailed (tooLargeMessage (length text))"
proof -
  obtain env ed' where l: "loadEnvConfig (Some w) ed = (env, ed')"
    by (cases "loadEnvConfig (Some w) ed")
  have v: "\<And>key. fst (getCredential key (Some w) ed) = credentialValue env (settings ed) key"
    by (simp add: getCredential_eq[OF l])
  from assms(2) obtain url where url: "credentialValue env (settings ed) ''restletUrl'' = Some url"
    "url \<noteq> []" by (auto simp: v truthy_def split: option.splits)
  from assms(4) obtain u where u: "parseURL nd url = Some u" by (auto simp: v url)
  let ?info = "fst (resolveUploadFile (doc_fileName doc) w ed)"
  have p: "\<And>d. post ns \<lparr>path = Some (netSuitePath ?info), content = Some text,
        encoding = Some ''utf8'', folder = None, description = d\<rparr> =
      (Failure ''FILE_TOO_LARGE'' (tooLargeMessage (length text)), ns)"
    by (rule validateRequest_too_large(2)[where p = "netSuitePath ?info"])
       (simp_all add: netSuitePath_not_empty assms(7))
  from uploadFile_request[OF assms(1) l url assms(3)[unfolded v] u refl assms(5)]
  obtain auth timeout pre where a: "uploadFile nd doc ed =
     (let req = \<lparr>req_hostname = hostname u, req_port = orElse (Some (port u)) ''443'',
                  req_path = pathname u @ search u, req_method = ''POST'',
                  req_authorization = auth,
                  req_body = Some \<lparr>path = Some (netSuitePath ?info), content = Some text,
                                    encoding = Some ''utf8'', folder = None,
                                    description = Some (''Uploaded via Auto-Upload from '' @
                                                        relativePath ?info)\<rparr>\<rparr>;
          name = pathBasename (uploadPath ?info)
      in case handleOutcome timeout (endpoint nd req)
                (pre\<lparr>requests := requests ed @ [req]\<rparr>) of
           (Inl e, ed4) \<Rightarrow> (UploadFailed (err_message e), log (''Upload failed: '' @ name) ed4)
         | (Inr response, ed4) \<Rightarrow>
             if r_success response
             then (Uploaded response,
                   recordUpload ?info response (log (''Upload successful: '' @ name) ed4))
             else (UploadFailed (orElse (r_message response)
                                   (orElse (r_error response) ''Upload failed'')),
                   log (''Upload failed: '' @ name) ed4))" by blast
  show ?thesis
    unfolding a Let_def assms(6)
    by (simp add: restletEndpoint_def p jsonOf_def handleOutcome_def tooLargeMessage_truthy
          del: append.simps)
qed

subsection \<open>An example workspace\<close>

lemma edUpload_loaded:
  "loadEnvConfig (Some ''/ws'') (edUpload text) =
     ([(''NS_RESTLET_URL'', ''https://host/restlet''), (''NS_ACCOUNT_ID'', ''123''),
       (''NS_CONSUMER_KEY'', ''ck''), (''NS_CONSUMER_SECRET'', ''cs''),
       (''NS_TOKEN_ID'', ''ti''), (''NS_TOKEN_SECRET'', ''ts'')], edUpload text)"
  by (rule loadEnvConfig_cached) (simp add: edUpload_def edCredentials_def)

lemma edUpload_credentials:
  "fst (getCredential key (Some ''/ws'') (edUpload text)) =
   fst (getCredential key (Some ''/ws'') edCredentials)"
proof -
  have l: "loadEnvConfig (Some ''/ws'') edCredentials =
     ([(''NS_RESTLET_URL'', ''https://host/restlet''), (''NS_ACCOUNT_ID'', ''123''),
       (''NS_CONSUMER_KEY'', ''ck''), (''NS_CONSUMER_SECRET'', ''cs''),
       (''NS_TOKEN_ID'', ''ti''), (''NS_TOKEN_SECRET'', ''ts'')], edCredentials)"
    by (rule loadEnvConfig_cached) (simp add: edCredentials_def)
  show ?thesis
    unfolding getCredential_eq[OF edUpload_loaded] getCredential_eq[OF l]
    by (simp add: edUpload_def)
qed

lemma edUpload_resolved:
  "fst (resolveUploadFile ''/ws/src/a.js'' ''/ws'' (edUpload text)) =
     \<lparr>uploadPath = ''/ws/dist/a.js'', relativePath = ''dist/a.js'',
       netSuitePath = ''/SuiteScripts/a.js'', isMapped = True,
       originalPath = Some ''/ws/src/a.js''\<rparr>"
proof -
  have "fst (resolveUploadFile ''/ws/src/a.js'' ''/ws'' (edUpload text)) =
        fst (resolveUploadFile ''/ws/src/a.js'' ''/ws'' (edUpload []))"
    by (rule resolveUploadFile_depends[OF edUpload_loaded edUpload_loaded])
       (simp add: edUpload_def)
  also have "\<dots> = \<lparr>uploadPath = ''/ws/dist/a.js'', relativePath = ''dist/a.js'',
       netSuitePath = ''/SuiteScripts/a.js'', isMapped = True,
       originalPath = Some ''/ws/src/a.js''\<rparr>"
    by code_simp
  finally show ?thesis .
qed

lemma edUpload_ready:
  "doc_workspaceFolder docExample = Some ''/ws''"
  "truthy (fst (getCredential ''restletUrl'' (Some ''/ws'') (edUpload text)))"
  "\<forall>key\<in>set requiredCredentials. truthy (fst (getCredential key (Some ''/ws'') (edUpload text)))"
  "parseURL nodeExample (the (fst (getCredential ''restletUrl'' (Some ''/ws'') (edUpload text)))) \<noteq> None"
  "map_of (fileSystem (edUpload text))
     (uploadPath (fst (resolveUploadFile (doc_fileName docExample) ''/ws'' (edUpload text)))) =
   Some text"
  "endpoint nodeExample = restletEndpoint nsEmpty"
  "requests (edUpload text) = []"
proof -
  show "doc_workspaceFolder docExample = Some ''/ws''" by (simp add: docExample_def)
  have u: "fst (getCredential ''restletUrl'' (Some ''/ws'') edCredentials) =
      Some ''https://host/restlet''" by code_simp
  show "truthy (fst (getCredential ''restletUrl'' (Some ''/ws'') (edUpload text)))"
    unfolding edUpload_credentials u by (simp add: truthy_def)
  have "list_all (\<lambda>key. truthy (fst (getCredential key (Some ''/ws'') edCredentials)))
     requiredCredentials" by code_simp
  then show "\<forall>key\<in>set requiredCredentials.
      truthy (fst (getCredential key (Some ''/ws'') (edUpload text)))"
    unfolding edUpload_credentials by (simp add: list_all_iff)
  show "parseURL nodeExample
      (the (fst (getCredential ''restletUrl'' (Some ''/ws'') (edUpload text)))) \<noteq> None"
    unfolding edUpload_credentials u by (simp add: nodeExample_def startsWith_def)
  have d: "doc_fileName docExample = ''/ws/src/a.js''" by (simp add: docExample_def)
  show "map_of (fileSystem (edUpload text))
     (uploadPath (fst (resolveUploadFile (doc_fileName docExample) ''/ws'' (edUpload text)))) =
   Some text"
    unfolding d edUpload_resolved by (simp add: edUpload_def)
  show "endpoint nodeExample = restletEndpoint nsEmpty" by (simp add: nodeExample_def)
  show "requests (edUpload text) = []" by (simp add: edUpload_def edCredentials_def)
qed

lemma post_example_created:
  assumes "length text \<le> maxFileSize"
  shows "fst (post nsEmpty (requestOf text)) =
     Success ''File created successfully'' 1 ''/SuiteScripts/a.js'' ''create''"
proof -
  have i: "\<not> includesStr ''/SuiteScripts/a.js'' ''..''" by code_simp
  have v: "validateRequest (requestOf text) = Valid"
    by (rule validateRequest_within_limit[where p = "''/SuiteScripts/a.js''" and c = "text"])
       (simp_all add: requestOf_def assms i)
  have p: "path (requestOf text) = Some ''/SuiteScripts/a.js''"
    "content (requestOf text) = Some text" by (simp_all add: requestOf_def)
  have f: "sanitizePath ''/SuiteScripts/a.js'' = ''/SuiteScripts/a.js''" by code_simp
  have pp: "parseFilePath ''/SuiteScripts/a.js'' = \<lparr>fileName = ''a.js'',
      folderPath = ''SuiteScripts'', fullPath = ''SuiteScripts/a.js''\<rparr>" by code_simp
  have l: "findFileByFullPath nsEmpty ''/SuiteScripts/a.js'' ''SuiteScripts'' ''a.js'' =
      (None, nsEmpty\<lparr>calls := [FileQuery ''a.js'' (- 15)]\<rparr>)" by code_simp
  have g: "getFileType ''a.js'' = JAVASCRIPT" by code_simp
  have o: "orElse (description (requestOf text)) ''Uploaded via Auto-Upload'' =
      ''Uploaded via Auto-Upload''" "orElse (encoding (requestOf text)) ''utf8'' = ''utf8''"
      "folder (requestOf text) = None"
    by (simp_all add: requestOf_def orElse_def truthy_def)
  have c: "fst (createNewFile (nsEmpty\<lparr>calls := [FileQuery ''a.js'' (- 15)]\<rparr>) None ''SuiteScripts'' ''a.js'' JAVASCRIPT text
      ''Uploaded via Auto-Upload'' ''utf8'' ''/SuiteScripts/a.js'') =
     Success ''File created successfully'' 1 ''/SuiteScripts/a.js'' ''create''"
    by code_simp
  show ?thesis
    unfolding post_valid[OF v p] f pp by (simp add: l g o c)
qed

subsection \<open>The size boundary\<close>

lemma utf8Length_ge: "length s \<le> utf8Length s"
  unfolding utf8Length_def by (induction s) auto

lemma utf8Length_replicate: "utf8Length (replicate n (CHR ''a'')) = n"
  unfolding utf8Length_def by (induction n) auto

text \<open>
  C6 (as amended). The size limit is checked by \<^verbatim>\<open>validateRequest\<close> of the RESTlet. A
  request with a path free of \<^verbatim>\<open>..\<close> whose content has exactly \<open>maxFileSize\<close> bytes
  passes validation and \<^verbatim>\<open>post\<close> never answers it with \<^verbatim>\<open>FILE_TOO_LARGE\<close>. With
  \<open>maxFileSize + 1\<close> bytes, each character being one byte, \<^verbatim>\<open>post\<close> answers
  \<^verbatim>\<open>FILE_TOO_LARGE\<close> and has made no call to the File Cabinet, which is left as it was.
  The rejection does not come before the network call: the extension does not check the
  size, a configured \<^verbatim>\<open>uploadFile\<close> of such a file sends the request with the whole
  content, and the failure it reports is the answer of the RESTlet. (The check compares
  \<^verbatim>\<open>content.length\<close>, the number of characters; content with characters of more than
  one byte is left out of the statement.)
\<close>

theorem size_limit_checked_by_restlet:
  "(path request = Some p \<and> p \<noteq> [] \<and> content request = Some c \<longrightarrow>
      (utf8Length c = maxFileSize \<and> \<not> includesStr p ''..'' \<longrightarrow>
         validateRequest request = Valid \<and>
         (\<forall>m. fst (post ns request) \<noteq> Failure ''FILE_TOO_LARGE'' m)) \<and>
      (utf8Length c = maxFileSize + 1 \<and> length c = utf8Length c \<longrightarrow>
         validateRequest request =
           Invalid ''FILE_TOO_LARGE'' (tooLargeMessage (maxFileSize + 1)) \<and>
         post ns request =
           (Failure ''FILE_TOO_LARGE'' (tooLargeMessage (maxFileSize + 1)), ns))) \<and>
   (doc_workspaceFolder doc = Some w \<and>
    truthy (fst (getCredential ''restletUrl'' (Some w) ed)) \<and>
    (\<forall>key\<in>set requiredCredentials. truthy (fst (getCredential key (Some w) ed))) \<and>
    parseURL nd (the (fst (getCredential ''restletUrl'' (Some w) ed))) \<noteq> None \<and>
    map_of (fileSystem ed) (uploadPath (fst (resolveUploadFile (doc_fileName doc) w ed))) =
      Some contents \<and>
    endpoint nd = restletEndpoint ns \<and>
    utf8Length contents = maxFileSize + 1 \<and> length contents = utf8Length contents \<longrightarrow>
      (\<exists>req payload. requests (snd (uploadFile nd doc ed)) = requests ed @ [req] \<and>
         req_body req = Some payload \<and> content payload = Some contents) \<and>
      fst (uploadFile nd doc ed) = UploadFailed (tooLargeMessage (maxFileSize + 1)))"
proof (intro conjI impI)
  assume a: "path request = Some p \<and> p \<noteq> [] \<and> content request = Some c"
    and b: "utf8Length c = maxFileSize \<and> \<not> includesStr p ''..''"
  have "length c \<le> maxFileSize" using utf8Length_ge[of c] b by simp
  with a b show v: "validateRequest request = Valid"
    by (intro validateRequest_within_limit[of request p c]) simp_all
  show "\<forall>m. fst (post ns request) \<noteq> Failure ''FILE_TOO_LARGE'' m"
    using post_valid_not_too_large[OF v] by blast
next
  assume a: "path request = Some p \<and> p \<noteq> [] \<and> content request = Some c"
    and b: "utf8Length c = maxFileSize + 1 \<and> length c = utf8Length c"
  show "validateRequest request = Invalid ''FILE_TOO_LARGE'' (tooLargeMessage (maxFileSize + 1))"
    using validateRequest_too_large(1)[of request p c] a b by simp
  show "post ns request = (Failure ''FILE_TOO_LARGE'' (tooLargeMessage (maxFileSize + 1)), ns)"
    using validateRequest_too_large(2)[of request p c ns] a b by simp
next
  assume a: "doc_workspaceFolder doc = Some w \<and>
    truthy (fst (getCredential ''restletUrl'' (Some w) ed)) \<and>
    (\<forall>key\<in>set requiredCredentials. truthy (fst (getCredential key (Some w) ed))) \<and>
    parseURL nd (the (fst (getCredential ''restletUrl'' (Some w) ed))) \<noteq> None \<and>
    map_of (fileSystem ed) (uploadPath (fst (resolveUploadFile (doc_fileName doc) w ed))) =
      Some contents \<and>
    endpoint nd = restletEndpoint ns \<and>
    utf8Length contents = maxFileSize + 1 \<and> length contents = utf8Length contents"
  show "\<exists>req payload. requests (snd (uploadFile nd doc ed)) = requests ed @ [req] \<and>
         req_body req = Some payload \<and> content payload = Some contents"
    using a by (intro uploadFile_sends[of doc w ed nd contents]) simp_all
  show "fst (uploadFile nd doc ed) = UploadFailed (tooLargeMessage (maxFileSize + 1))"
    using uploadFile_too_large[of doc w ed nd contents ns] a by simp
qed

theorem size_limit_checked_by_restlet_witness:
  "path (requestOf limitText) = Some ''/SuiteScripts/a.js'' \<and>
   content (requestOf limitText) = Some limitText \<and>
   utf8Length limitText = maxFileSize \<and> \<not> includesStr ''/SuiteScripts/a.js'' ''..'' \<and>
   validateRequest (requestOf limitText) = Valid \<and>
   fst (post nsEmpty (requestOf limitText)) =
     Success ''File created successfully'' 1 ''/SuiteScripts/a.js'' ''create'' \<and>
   path (requestOf bigText) = Some ''/SuiteScripts/a.js'' \<and>
   content (requestOf bigText) = Some bigText \<and>
   utf8Length bigText = maxFileSize + 1 \<and> length bigText = utf8Length bigText \<and>
   post nsEmpty (requestOf bigText) =
     (Failure ''FILE_TOO_LARGE'' (tooLargeMessage (maxFileSize + 1)), nsEmpty) \<and>
   doc_workspaceFolder docExample = Some ''/ws'' \<and>
   list_all (\<lambda>key. truthy (fst (getCredential key (Some ''/ws'') (edUpload bigText))))
     (''restletUrl'' # requiredCredentials) \<and>
   parseURL nodeExample
     (the (fst (getCredential ''restletUrl'' (Some ''/ws'') (edUpload bigText)))) \<noteq> None \<and>
   map_of (fileSystem (edUpload bigText)) ''/ws/dist/a.js'' = Some bigText \<and>
   endpoint nodeExample = restletEndpoint nsEmpty \<and>
   map (\<lambda>req. map_option content (req_body req))
     (requests (snd (uploadFile nodeExample docExample (edUpload bigText)))) =
     [Some (Some bigText)] \<and>
   fst (uploadFile nodeExample docExample (edUpload bigText)) =
     UploadFailed (tooLargeMessage (maxFileSize + 1))"
proof -
  have i: "\<not> includesStr ''/SuiteScripts/a.js'' ''..''" by code_simp
  have p: "path (requestOf limitText) = Some ''/SuiteScripts/a.js''"
    "content (requestOf limitText) = Some limitText"
    "path (requestOf bigText) = Some ''/SuiteScripts/a.js''"
    "content (requestOf bigText) = Some bigText"
    by (simp_all add: requestOf_def)
  have n: "length limitText = maxFileSize" "length bigText = maxFileSize + 1"
    by (simp_all add: limitText_def bigText_def)
  have u: "utf8Length limitText = maxFileSize" "utf8Length bigText = maxFileSize + 1"
    "length bigText = utf8Length bigText"
    by (simp_all only: limitText_def bigText_def utf8Length_replicate length_replicate)
  have s: "fst (post nsEmpty (requestOf limitText)) =
     Success ''File created successfully'' 1 ''/SuiteScripts/a.js'' ''create''"
    by (rule post_example_created) (simp add: n)
  note R = edUpload_ready(1) edUpload_ready(2)[of bigText] edUpload_ready(3)[of bigText]
    edUpload_ready(4)[of bigText] edUpload_ready(5)[of bigText] edUpload_ready(6)
    edUpload_ready(7)[of bigText]
  have f: "map_of (fileSystem (edUpload bigText)) ''/ws/dist/a.js'' = Some bigText"
    by (simp add: edUpload_def)
  have l: "list_all (\<lambda>key. truthy (fst (getCredential key (Some ''/ws'') (edUpload bigText))))
     (''restletUrl'' # requiredCredentials)"
    using R(2,3) by (simp add: list_all_iff)
  note T1 = size_limit_checked_by_restlet[where request = "requestOf limitText"
      and p = "''/SuiteScripts/a.js''" and c = limitText and ns = nsEmpty, THEN conjunct1]
  note T2 = size_limit_checked_by_restlet[where request = "requestOf bigText"
      and p = "''/SuiteScripts/a.js''" and c = bigText and ns = nsEmpty, THEN conjunct1]
  note T3 = size_limit_checked_by_restlet[where doc = docExample and w = "''/ws''"
      and ed = "edUpload bigText" and nd = nodeExample and ns = nsEmpty and contents = bigText,
      THEN conjunct2]
  have c1: "validateRequest (requestOf limitText) = Valid"
    using T1 p u i by simp
  have c2: "post nsEmpty (requestOf bigText) =
     (Failure ''FILE_TOO_LARGE'' (tooLargeMessage (maxFileSize + 1)), nsEmpty)"
    using T2 p u by simp
  have c3: "(\<exists>req payload. requests (snd (uploadFile nodeExample docExample (edUpload bigText))) =
         requests (edUpload bigText) @ [req] \<and>
         req_body req = Some payload \<and> content payload = Some bigText) \<and>
      fst (uploadFile nodeExample docExample (edUpload bigText)) =
        UploadFailed (tooLargeMessage (maxFileSize + 1))"
    using T3 R u by blast
  then have c4: "map (\<lambda>req. map_option content (req_body req))
     (requests (snd (uploadFile nodeExample docExample (edUpload bigText)))) =
     [Some (Some bigText)]"
    using R(7) by auto
  show ?thesis
    using i p u s c1 c2 R(1,4,6) l f c3 c4 by blast
qed

text \<open>
  C6, the counterexample to the claim as stated. The rejection does not come before the
  network call: for a file of \<open>maxFileSize + 1\<close> bytes \<^verbatim>\<open>uploadFile\<close> hands one request
  with the whole content to \<^verbatim>\<open>https.request\<close>, and fails with the message the RESTlet sent
  back.
\<close>

theorem oversized_upload_is_sent_counterexample:
  "utf8Length bigText = maxFileSize + 1 \<and>
   requests (edUpload bigText) = [] \<and>
   map (\<lambda>req. map_option content (req_body req))
     (requests (snd (uploadFile nodeExample docExample (edUpload bigText)))) =
     [Some (Some bigText)] \<and>
   fst (uploadFile nodeExample docExample (edUpload bigText)) =
     UploadFailed (tooLargeMessage (maxFileSize + 1))"
proof -
  note R = edUpload_ready(1) edUpload_ready(2)[of bigText] edUpload_ready(3)[of bigText]
    edUpload_ready(4)[of bigText] edUpload_ready(5)[of bigText] edUpload_ready(6)
    edUpload_ready(7)[of bigText]
  have n: "length bigText = maxFileSize + 1" by (simp add: bigText_def)
  have u: "utf8Length bigText = maxFileSize + 1"
    by (simp only: bigText_def utf8Length_replicate)
  from uploadFile_sends[OF R(1-5)]
  have a: "map (\<lambda>req. map_option content (req_body req))
     (requests (snd (uploadFile nodeExample docExample (edUpload bigText)))) =
     [Some (Some bigText)]"
    using R(7) by auto
  have b: "fst (uploadFile nodeExample docExample (edUpload bigText)) =
     UploadFailed (tooLargeMessage (maxFileSize + 1))"
    using uploadFile_too_large[OF R(1-6)] n by simp
  show ?thesis using u R(7) a b by blast
qed

subsection \<open>The debounce timers\<close>

lemma map_of_filter_other:
  "k \<noteq> p \<Longrightarrow> map_of (filter (\<lambda>kv. fst kv \<noteq> p) m) k = map_of m k"
  by (induction m) auto

lemma count_list_map:
  "count_list (map f xs) y = length (filter (\<lambda>x. f x = y) xs)"
  by (induction xs) auto

lemma distinct_map_filter_le:
  "distinct (map f xs) \<Longrightarrow> length (filter (\<lambda>x. f x = y) xs) \<le> 1"
proof (induction xs)
  case Nil
  show ?case by simp
next
  case (Cons a xs)
  show ?case
  proof (cases "f a = y")
    case True
    have "\<And>x. x \<in> set xs \<Longrightarrow> f x \<noteq> y"
      using Cons.prems True by (metis distinct.simps(2) imageI list.simps(9) set_map)
    then have "filter (\<lambda>x. f x = y) xs = []"
      by (simp add: filter_empty_conv)
    then show ?thesis using True by simp
  next
    case False
    then show ?thesis using Cons by simp
  qed
qed

lemma fireTimer_fields:
  "clock (fireTimer t d) = clock d" "debounceDelay (fireTimer t d) = debounceDelay d"
  "started (fireTimer t d) = started d @ [timer_file t]"
  "inFlight (fireTimer t d) = inFlight d @ [timer_file t]"
  "set (pendingTimers (fireTimer t d)) \<subseteq> set (pendingTimers d)"
  by (auto simp: fireTimer_def)

lemma fold_fireTimer_fields:
  "clock (fold fireTimer ts d) = clock d"
  "debounceDelay (fold fireTimer ts d) = debounceDelay d"
  "started (fold fireTimer ts d) = started d @ map timer_file ts"
  "inFlight (fold fireTimer ts d) = inFlight d @ map timer_file ts"
  by (induction ts arbitrary: d) (simp_all add: fireTimer_fields)

lemma fireTimer_consistent:
  assumes "timersConsistent d"
    and "\<forall>u\<in>set (pendingTimers d). timer_file u = timer_file t \<longrightarrow> timer_handle u = timer_handle t"
  shows "timersConsistent (fireTimer t d)"
proof -
  have d: "distinct (map timer_file (filter (\<lambda>u. timer_handle u \<noteq> timer_handle t) (pendingTimers d)))"
    using assms(1) by (simp add: timersConsistent_def distinct_map_filter)
  have m: "\<And>u. u \<in> set (pendingTimers d) \<Longrightarrow> timer_handle u \<noteq> timer_handle t \<Longrightarrow>
      map_of (filter (\<lambda>kv. fst kv \<noteq> timer_file t) (debounceTimers d)) (timer_file u) =
      Some (timer_handle u)"
  proof -
    fix u assume u: "u \<in> set (pendingTimers d)" "timer_handle u \<noteq> timer_handle t"
    then have "timer_file u \<noteq> timer_file t" using assms(2) by blast
    then show "map_of (filter (\<lambda>kv. fst kv \<noteq> timer_file t) (debounceTimers d)) (timer_file u) =
      Some (timer_handle u)"
      using assms(1) u(1) by (simp add: map_of_filter_other timersConsistent_def)
  qed
  show ?thesis
    using d m by (simp add: timersConsistent_def fireTimer_def)
qed

lemma fold_fireTimer_consistent:
  assumes "timersConsistent d"
    and "\<forall>t\<in>set ts. \<forall>u\<in>set (pendingTimers d).
           timer_file u = timer_file t \<longrightarrow> timer_handle u = timer_handle t"
  shows "timersConsistent (fold fireTimer ts d)"
  using assms
proof (induction ts arbitrary: d)
  case Nil
  then show ?case by simp
next
  case (Cons t ts)
  have a: "timersConsistent (fireTimer t d)"
    using Cons.prems by (intro fireTimer_consistent) simp_all
  have b: "\<forall>t'\<in>set ts. \<forall>u\<in>set (pendingTimers (fireTimer t d)).
           timer_file u = timer_file t' \<longrightarrow> timer_handle u = timer_handle t'"
    using Cons.prems(2) fireTimer_fields(5)[of t d] by auto
  show ?case using Cons.IH[OF a b] by simp
qed

lemma same_file_same_timer:
  assumes "timersConsistent d" "t \<in> set (pendingTimers d)" "u \<in> set (pendingTimers d)"
    "timer_file u = timer_file t"
  shows "timer_handle u = timer_handle t"
proof -
  have "map_of (debounceTimers d) (timer_file t) = Some (timer_handle t)"
    "map_of (debounceTimers d) (timer_file u) = Some (timer_handle u)"
    using assms(1,2,3) unfolding timersConsistent_def by blast+
  then show ?thesis using assms(4) by simp
qed

lemma elapse_consistent:
  assumes "timersConsistent d"
  shows "timersConsistent (elapse ms d)"
proof -
  let ?d1 = "d\<lparr>clock := clock d + ms\<rparr>"
  have c: "timersConsistent ?d1" using assms by (simp add: timersConsistent_def)
  show ?thesis
    unfolding elapse_def Let_def
    by (rule fold_fireTimer_consistent[OF c]) (auto intro: same_file_same_timer[OF c])
qed

lemma elapse_fields:
  "debounceDelay (elapse ms d) = debounceDelay d"
  "started (elapse ms d) =
     started d @ map timer_file (sort_key timer_deadline
       (filter (\<lambda>t. timer_deadline t \<le> clock d + ms) (pendingTimers d)))"
  "inFlight (elapse ms d) =
     inFlight d @ map timer_file (sort_key timer_deadline
       (filter (\<lambda>t. timer_deadline t \<le> clock d + ms) (pendingTimers d)))"
  by (simp_all add: elapse_def Let_def fold_fireTimer_fields)

lemma no_timer_of_file:
  assumes "timersConsistent d"
  shows "filter (\<lambda>t. timer_file t = p)
           (pendingTimers (case map_of (debounceTimers d) p of None \<Rightarrow> d
                           | Some h \<Rightarrow> clearTimeout h d)) = []"
proof (cases "map_of (debounceTimers d) p")
  case None
  then show ?thesis using assms by (auto simp: timersConsistent_def filter_empty_conv)
next
  case (Some h)
  then show ?thesis using assms
    by (auto simp: timersConsistent_def filter_empty_conv clearTimeout_def)
qed

lemma debounceUpload_fields:
  "clock (debounceUpload p d) = clock d" "debounceDelay (debounceUpload p d) = debounceDelay d"
  "started (debounceUpload p d) = started d" "inFlight (debounceUpload p d) = inFlight d"
  by (simp_all add: debounceUpload_def Let_def clearTimeout_def split: option.splits)

lemma debounceUpload_restarts:
  assumes "timersConsistent d"
  shows "\<exists>h. filter (\<lambda>t. timer_file t = p) (pendingTimers (debounceUpload p d)) =
     [\<lparr>timer_handle = h, timer_deadline = clock d + effectiveDelay d, timer_file = p\<rparr>]"
  using no_timer_of_file[OF assms, of p]
  by (simp add: debounceUpload_def Let_def clearTimeout_def effectiveDelay_def
        split: option.splits)

lemma debounceUpload_consistent:
  assumes "timersConsistent d"
  shows "timersConsistent (debounceUpload p d)"
proof -
  let ?d1 = "case map_of (debounceTimers d) p of None \<Rightarrow> d | Some h \<Rightarrow> clearTimeout h d"
  have n: "\<forall>t\<in>set (pendingTimers ?d1). timer_file t \<noteq> p"
    using no_timer_of_file[OF assms, of p] by (simp add: filter_empty_conv)
  have s: "set (pendingTimers ?d1) \<subseteq> set (pendingTimers d)" "debounceTimers ?d1 = debounceTimers d"
    by (auto simp: clearTimeout_def split: option.splits)
  have d: "distinct (map timer_file (pendingTimers ?d1))"
    using assms by (auto simp: timersConsistent_def clearTimeout_def distinct_map_filter
        split: option.splits)
  have m: "\<forall>t\<in>set (pendingTimers ?d1).
      map_of (filter (\<lambda>kv. fst kv \<noteq> p) (debounceTimers ?d1)) (timer_file t) =
      Some (timer_handle t)"
    using n s assms by (auto simp: map_of_filter_other timersConsistent_def)
  show ?thesis
    unfolding timersConsistent_def debounceUpload_def Let_def
    using n d m by auto
qed

lemma step_consistent: "timersConsistent d \<Longrightarrow> timersConsistent (step e d)"
  by (cases e) (simp_all add: debounceUpload_consistent elapse_consistent,
      simp_all add: timersConsistent_def)

lemma run_consistent: "timersConsistent d \<Longrightarrow> timersConsistent (run d es)"
  unfolding run_def by (induction es arbitrary: d) (simp_all add: step_consistent)

lemma run_append: "run d (es @ fs) = run (run d es) fs"
  by (simp add: run_def)

lemma save_then_elapse:
  assumes "timersConsistent d"
  shows "timersConsistent (elapse ms (debounceUpload p d))"
    and "count_list (started (elapse ms (debounceUpload p d))) p =
         count_list (started d) p + (if effectiveDelay d \<le> ms then 1 else 0)"
proof -
  show "timersConsistent (elapse ms (debounceUpload p d))"
    using assms by (simp add: debounceUpload_consistent elapse_consistent)
  obtain h where h: "filter (\<lambda>t. timer_file t = p) (pendingTimers (debounceUpload p d)) =
     [\<lparr>timer_handle = h, timer_deadline = clock d + effectiveDelay d, timer_file = p\<rparr>]"
    using debounceUpload_restarts[OF assms] by blast
  have "filter (\<lambda>t. timer_file t = p)
          (filter (\<lambda>t. timer_deadline t \<le> clock d + ms) (pendingTimers (debounceUpload p d))) =
        filter (\<lambda>t. timer_deadline t \<le> clock d + ms)
          (filter (\<lambda>t. timer_file t = p) (pendingTimers (debounceUpload p d)))"
    by (simp add: conj_commute)
  also have "\<dots> = (if effectiveDelay d \<le> ms
      then [\<lparr>timer_handle = h, timer_deadline = clock d + effectiveDelay d, timer_file = p\<rparr>]
      else [])"
    unfolding h by simp
  finally have "length (filter (\<lambda>t. timer_file t = p)
          (sort_key timer_deadline
             (filter (\<lambda>t. timer_deadline t \<le> clock d + ms)
                (pendingTimers (debounceUpload p d))))) =
        (if effectiveDelay d \<le> ms then 1 else 0)"
    by (simp add: filter_sort)
  then show "count_list (started (elapse ms (debounceUpload p d))) p =
         count_list (started d) p + (if effectiveDelay d \<le> ms then 1 else 0)"
    by (simp add: elapse_fields debounceUpload_fields count_list_map)
qed

lemma burst_starts_nothing:
  assumes "timersConsistent d" "\<forall>ms\<in>set pauses. ms < effectiveDelay d"
  shows "timersConsistent (run d (burst p pauses)) \<and>
         effectiveDelay (run d (burst p pauses)) = effectiveDelay d \<and>
         count_list (started (run d (burst p pauses))) p = count_list (started d) p"
  using assms
proof (induction pauses arbitrary: d)
  case Nil
  then show ?case by (simp add: burst_def run_def)
next
  case (Cons ms pauses)
  let ?d = "elapse ms (debounceUpload p d)"
  have r: "run d (burst p (ms # pauses)) = run ?d (burst p pauses)"
    by (simp add: burst_def run_def)
  have e: "effectiveDelay ?d = effectiveDelay d"
    by (simp add: effectiveDelay_def elapse_fields debounceUpload_fields)
  note S = save_then_elapse[OF Cons.prems(1), of ms p]
  have c: "count_list (started ?d) p = count_list (started d) p"
    using S(2) Cons.prems(2) by simp
  show ?case
    unfolding r using Cons.IH[of ?d] S(1) Cons.prems(2) by (simp add: e c)
qed

lemma activated_consistent: "timersConsistent activated"
  by (simp add: timersConsistent_def activated_def)

text \<open>
  C2 (as amended). The timers of \<^verbatim>\<open>debounceUpload\<close> are kept per saved file, from which
  the physical path is computed. In every state that the event loop reaches, a burst of
  saves of one file, each save less than the debounce delay after the one before, followed
  by a pause of at least the delay, hands that file to \<^verbatim>\<open>uploadFile\<close> exactly once. At
  most one timer is pending per file, because arming a timer clears the earlier timer of the
  file: after a save, the one pending timer of the file is the new one, due a full delay
  later.
\<close>

theorem saves_within_window_coalesce:
  assumes "\<forall>ms\<in>set pauses. ms < effectiveDelay (run activated es)"
    and "effectiveDelay (run activated es) \<le> quiet"
  shows "count_list (started (run activated (es @ burst p pauses @ [Save p, Elapse quiet]))) p =
         count_list (started (run activated es)) p + 1 \<and>
         (\<forall>q. length (filter (\<lambda>t. timer_file t = q) (pendingTimers (run activated es))) \<le> 1) \<and>
         (\<exists>h. filter (\<lambda>t. timer_file t = p) (pendingTimers (run activated (es @ [Save p]))) =
              [\<lparr>timer_handle = h,
                timer_deadline = clock (run activated es) + effectiveDelay (run activated es),
                timer_file = p\<rparr>])"
proof -
  let ?d = "run activated es"
  have c: "timersConsistent ?d" by (rule run_consistent[OF activated_consistent])
  note B = burst_starts_nothing[OF c assms(1), of p]
  let ?b = "run ?d (burst p pauses)"
  have r: "run activated (es @ burst p pauses @ [Save p, Elapse quiet]) =
      elapse quiet (debounceUpload p ?b)"
    by (simp add: run_append) (simp add: run_def)
  have "count_list (started (elapse quiet (debounceUpload p ?b))) p =
      count_list (started ?d) p + 1"
    using save_then_elapse(2)[of ?b quiet p] B assms(2) by simp
  moreover have "\<forall>q. length (filter (\<lambda>t. timer_file t = q) (pendingTimers ?d)) \<le> 1"
    using c distinct_map_filter_le[of timer_file "pendingTimers ?d"]
    unfolding timersConsistent_def by blast
  moreover have "run activated (es @ [Save p]) = debounceUpload p ?d"
    by (simp add: run_def)
  then have "\<exists>h. filter (\<lambda>t. timer_file t = p) (pendingTimers (run activated (es @ [Save p]))) =
              [\<lparr>timer_handle = h, timer_deadline = clock ?d + effectiveDelay ?d,
                timer_file = p\<rparr>]"
    using debounceUpload_restarts[OF c, of p] by simp
  ultimately show ?thesis unfolding r by blast
qed

theorem saves_within_window_coalesce_witness:
  "list_all (\<lambda>ms. ms < effectiveDelay (run activated
      [Configure (Some 800), Save ''b.js'', Elapse 400])) [300, 799] \<and>
   effectiveDelay (run activated [Configure (Some 800), Save ''b.js'', Elapse 400]) \<le> 800 \<and>
   started (run activated [Configure (Some 800), Save ''b.js'', Elapse 400]) = [] \<and>
   count_list (started (run activated
      ([Configure (Some 800), Save ''b.js'', Elapse 400] @ burst ''a.js'' [300, 799] @
       [Save ''a.js'', Elapse 800]))) ''a.js'' = 1"
proof -
  have e: "effectiveDelay (run activated [Configure (Some 800), Save ''b.js'', Elapse 400]) = 800"
    by (simp add: run_def debounceUpload_def elapse_def effectiveDelay_def activated_def Let_def)
  have s: "started (run activated [Configure (Some 800), Save ''b.js'', Elapse 400]) = []"
    by (simp add: run_def debounceUpload_def elapse_def effectiveDelay_def activated_def Let_def)
  have h: "\<forall>ms\<in>set [300, 799].
      ms < effectiveDelay (run activated [Configure (Some 800), Save ''b.js'', Elapse 400])"
    unfolding e by simp
  have q: "effectiveDelay (run activated [Configure (Some 800), Save ''b.js'', Elapse 400]) \<le> 800"
    unfolding e by simp
  from saves_within_window_coalesce[OF h q, of "''a.js''", THEN conjunct1]
  show ?thesis using h q by (simp add: s)
qed

text \<open>
  C2, the counterexample to the claim as stated. Uploads in flight are not tracked, and a
  timer that has fired is no longer there to be cleared: a file saved again after its upload
  started, and before that upload settled, is handed to \<^verbatim>\<open>uploadFile\<close> a second time, and
  two uploads of the same path are in flight together.
\<close>

theorem uploads_of_one_path_overlap_counterexample:
  "inFlight (run activated [Save ''a.js'', Elapse 1000, Save ''a.js'', Elapse 1000]) =
     [''a.js'', ''a.js'']"
  by (simp add: run_def debounceUpload_def elapse_def fireTimer_def clearTimeout_def
        effectiveDelay_def activated_def Let_def)

end
